theory Spec2Isabelle
  imports Complex_Main "HOL-Library.Word"
begin

unbundle bit_operations_syntax

section \<open>Bytes, errors and JavaScript integer operators\<close>

type_synonym byte = "8 word"

text \<open>
  Every \<^verbatim>\<open>throw\<close> of \<^verbatim>\<open>read.js\<close> and every exception of the platform that the code can
  meet is a value of this type. \<open>RangeError\<close> is what typed-array and \<^verbatim>\<open>DataView\<close>
  constructors and accessors raise on an out-of-bounds range.
\<close>

datatype error =
    RangeError
  | InvalidIdentifier
  | Truncated
  | FzstdLoadFailed
  | DecompressFailed nat
  | BasisLoadFailed
  | BackendThrew
  | TranscoderInitFailed
  | FileHasNoImages
  | ZlibNotSupported
  | UnknownSupercompression nat

definition bindE :: "error + 'a \<Rightarrow> ('a \<Rightarrow> error + 'b) \<Rightarrow> error + 'b" where
  "bindE m f = (case m of Inl e \<Rightarrow> Inl e | Inr x \<Rightarrow> f x)"

text \<open>
  The operators \<^verbatim>\<open>>>\<close>, \<^verbatim>\<open><<\<close>, \<^verbatim>\<open>&\<close> and \<^verbatim>\<open>|\<close> of JavaScript convert their operands to
  signed 32-bit integers and take the shift count modulo 32.
\<close>

definition toInt32 :: "int \<Rightarrow> int" where
  "toInt32 k = (k + 2 ^ 31) mod 2 ^ 32 - 2 ^ 31"

definition js_sar :: "int \<Rightarrow> int \<Rightarrow> int" where
  "js_sar a n = toInt32 a div 2 ^ nat (n mod 32)"

definition js_shl :: "int \<Rightarrow> int \<Rightarrow> int" where
  "js_shl a n = toInt32 (toInt32 a * 2 ^ nat (n mod 32))"

definition js_and :: "int \<Rightarrow> int \<Rightarrow> int" where
  "js_and a b = toInt32 a AND toInt32 b"

definition js_or :: "int \<Rightarrow> int \<Rightarrow> int" where
  "js_or a b = toInt32 a OR toInt32 b"

section \<open>Byte reader\<close>

text \<open>
  \<^verbatim>\<open>new Uint8Array(buffer, byteOffset, length)\<close>: a view of \<open>len\<close> bytes at \<open>off\<close>, or a
  \<open>RangeError\<close> when the range leaves the buffer.
\<close>

definition u8view :: "byte list \<Rightarrow> nat \<Rightarrow> nat \<Rightarrow> error + byte list" where
  "u8view buf off len =
     (if off + len \<le> length buf then Inr (take len (drop off buf)) else Inl RangeError)"

fun le_value :: "byte list \<Rightarrow> nat" where
  "le_value [] = 0"
| "le_value (b # bs) = unat b + 256 * le_value bs"

definition getUint8 :: "byte list \<Rightarrow> nat \<Rightarrow> error + nat" where
  "getUint8 buf off = bindE (u8view buf off 1) (\<lambda>bs. Inr (le_value bs))"

definition getUint16 :: "byte list \<Rightarrow> nat \<Rightarrow> error + nat" where
  "getUint16 buf off = bindE (u8view buf off 2) (\<lambda>bs. Inr (le_value bs))"

definition getUint32 :: "byte list \<Rightarrow> nat \<Rightarrow> error + nat" where
  "getUint32 buf off = bindE (u8view buf off 4) (\<lambda>bs. Inr (le_value bs))"

text \<open>
  \<^verbatim>\<open>Number(bigint)\<close>: the double nearest to an unsigned 64-bit integer, ties to the even
  significand. \<open>e\<close> is the number of low bits that do not fit the 53-bit significand
  (0 below \<open>2 ^ 53\<close>, at most 11 below \<open>2 ^ 64\<close>). The result is again an integer.
\<close>

definition toNumber :: "nat \<Rightarrow> nat" where
  "toNumber n =
     (let e = length (filter (\<lambda>k. 2 ^ (53 + k) \<le> n) [0 ..< 11]);
          q = n div 2 ^ e;
          r = n mod 2 ^ e
      in if 2 * r > 2 ^ e \<or> (2 * r = 2 ^ e \<and> odd q) then (q + 1) * 2 ^ e else q * 2 ^ e)"

text \<open>\<^verbatim>\<open>Number(dv.getBigUint64(offset, true))\<close>.\<close>

definition getBigUint64 :: "byte list \<Rightarrow> nat \<Rightarrow> error + nat" where
  "getBigUint64 buf off = bindE (u8view buf off 8) (\<lambda>bs. Inr (toNumber (le_value bs)))"

section \<open>Data model\<close>

record ktx_header =
  vkFormat :: nat
  typeSize :: nat
  pixelWidth :: nat
  pixelHeight :: nat
  pixelDepth :: nat
  layerCount :: nat
  faceCount :: nat
  levelCount :: nat
  supercompressionScheme :: nat

record ktx_index =
  dfdByteOffset :: nat
  dfdByteLength :: nat
  kvdByteOffset :: nat
  kvdByteLength :: nat
  sgdByteOffset :: nat
  sgdByteLength :: nat

text \<open>
  A level descriptor. The three decode-outcome fields are absent (\<^verbatim>\<open>undefined\<close>) on a
  freshly parsed level: \<open>isDecompressed = False\<close> and \<open>None\<close>.
\<close>

record level =
  byteOffset :: nat
  byteLength :: nat
  uncompressedByteLength :: nat
  width :: int
  height :: int
  isDecompressed :: bool
  decompressedData :: "byte list option"
  transcodedFormat :: "nat option"

record dfd =
  totalSize :: nat
  vendorId :: nat
  descriptorType :: nat
  versionNumber :: nat
  descriptorBlockSize :: nat
  colorModel :: nat
  colorPrimaries :: nat
  transferFunction :: nat
  flags :: nat
  texelBlockDimension :: "nat list"
  bytesPlane :: "nat list"

text \<open>
  The key/value dictionary: the own properties of the object \<^verbatim>\<open>kv\<close>, from key to value.
  A key or a value is kept as the bytes of the entry before and after its first NUL; the
  source holds the strings that \<^verbatim>\<open>TextDecoder\<close> makes of them.
\<close>

type_synonym kvd = "byte list \<rightharpoonup> byte list"

record parsed_texture =
  header :: ktx_header
  index :: ktx_index
  levels :: "level list"
  dfd :: "dfd option"
  kvd :: "kvd option"

section \<open>Container parser (read.js, parseKTX2, lines 200-262)\<close>

definition KTX2_IDENTIFIER :: "byte list" where
  "KTX2_IDENTIFIER =
     [0xAB, 0x4B, 0x54, 0x58, 0x20, 0x32, 0x30, 0xBB, 0x0D, 0x0A, 0x1A, 0x0A]"

definition SUPERCOMPRESSION_NONE :: nat where "SUPERCOMPRESSION_NONE = 0"
definition SUPERCOMPRESSION_BASIS_LZ :: nat where "SUPERCOMPRESSION_BASIS_LZ = 1"
definition SUPERCOMPRESSION_ZSTD :: nat where "SUPERCOMPRESSION_ZSTD = 2"
definition SUPERCOMPRESSION_ZLIB :: nat where "SUPERCOMPRESSION_ZLIB = 3"

definition readHeader :: "byte list \<Rightarrow> error + ktx_header" where
  "readHeader buf =
     bindE (getUint32 buf 12) (\<lambda>f.
     bindE (getUint32 buf 16) (\<lambda>ts.
     bindE (getUint32 buf 20) (\<lambda>pw.
     bindE (getUint32 buf 24) (\<lambda>ph.
     bindE (getUint32 buf 28) (\<lambda>pd.
     bindE (getUint32 buf 32) (\<lambda>lc.
     bindE (getUint32 buf 36) (\<lambda>fc.
     bindE (getUint32 buf 40) (\<lambda>lv.
     bindE (getUint32 buf 44) (\<lambda>sc.
       Inr \<lparr> vkFormat = f, typeSize = ts, pixelWidth = pw, pixelHeight = ph,
             pixelDepth = pd, layerCount = lc, faceCount = fc, levelCount = lv,
             supercompressionScheme = sc \<rparr>)))))))))"

definition readIndex :: "byte list \<Rightarrow> error + ktx_index" where
  "readIndex buf =
     bindE (getUint32 buf 48) (\<lambda>dfo.
     bindE (getUint32 buf 52) (\<lambda>dfl.
     bindE (getUint32 buf 56) (\<lambda>kvo.
     bindE (getUint32 buf 60) (\<lambda>kvl.
     bindE (getBigUint64 buf 64) (\<lambda>sgo.
     bindE (getBigUint64 buf 72) (\<lambda>sgl.
       Inr \<lparr> dfdByteOffset = dfo, dfdByteLength = dfl, kvdByteOffset = kvo,
             kvdByteLength = kvl, sgdByteOffset = sgo, sgdByteLength = sgl \<rparr>))))))"

text \<open>
  The level-index loop \<^verbatim>\<open>for (let i = 0; i < levelCount; i++)\<close>: \<open>i\<close> is the loop
  counter, \<open>off\<close> the running offset and the last argument the number of iterations left.
\<close>

fun readLevels :: "byte list \<Rightarrow> ktx_header \<Rightarrow> nat \<Rightarrow> nat \<Rightarrow> nat \<Rightarrow> error + level list" where
  "readLevels buf h off i 0 = Inr []"
| "readLevels buf h off i (Suc n) =
     bindE (getBigUint64 buf off) (\<lambda>bo.
     bindE (getBigUint64 buf (off + 8)) (\<lambda>bl.
     bindE (getBigUint64 buf (off + 16)) (\<lambda>ul.
     bindE (readLevels buf h (off + 24) (Suc i) n) (\<lambda>rest.
       Inr (\<lparr> byteOffset = bo, byteLength = bl, uncompressedByteLength = ul,
               width = max 1 (js_sar (int (pixelWidth h)) (int i)),
               height = max 1 (js_sar (int (pixelHeight h)) (int i)),
               isDecompressed = False, decompressedData = None,
               transcodedFormat = None \<rparr> # rest)))))"

text \<open>\<^verbatim>\<open>Math.max(1, header.levelCount || 1)\<close>\<close>

definition iterLevelCount :: "ktx_header \<Rightarrow> nat" where
  "iterLevelCount h = max 1 (if levelCount h = 0 then 1 else levelCount h)"

text \<open>
  \<^verbatim>\<open>parseDFD(dv, baseOffset, length)\<close>: a \<^verbatim>\<open>DataView\<close> of the block, then reads relative
  to it.
\<close>

definition parseDFD :: "byte list \<Rightarrow> nat \<Rightarrow> nat \<Rightarrow> error + dfd" where
  "parseDFD buf baseOffset len =
     bindE (u8view buf baseOffset len) (\<lambda>view.
     bindE (getUint32 view 0) (\<lambda>tot.
     bindE (getUint16 view 4) (\<lambda>ven.
     bindE (getUint16 view 6) (\<lambda>dty.
     bindE (getUint16 view 8) (\<lambda>ver.
     bindE (getUint16 view 10) (\<lambda>dbs.
     bindE (getUint8 view 12) (\<lambda>cm.
     bindE (getUint8 view 13) (\<lambda>cp.
     bindE (getUint8 view 14) (\<lambda>tf.
     bindE (getUint8 view 15) (\<lambda>fl.
     bindE (u8view view 16 4) (\<lambda>tbd.
     bindE (u8view view 20 8) (\<lambda>bpl.
       Inr \<lparr> totalSize = tot, vendorId = ven, descriptorType = dty, versionNumber = ver,
             descriptorBlockSize = dbs, colorModel = cm, colorPrimaries = cp,
             transferFunction = tf, flags = fl, texelBlockDimension = map unat tbd,
             bytesPlane = map unat bpl \<rparr>))))))))))))"

text \<open>
  \<^verbatim>\<open>parseKVD(dv, baseOffset, length)\<close>. \<open>splitNul\<close> is \<^verbatim>\<open>indexOf('\0')\<close> with the two
  slices; an entry without a NUL is skipped. \<open>assignProperty\<close> is \<^verbatim>\<open>kv[key] = value\<close> on a
  plain object: a key that is already there gets the new value, and the key \<^verbatim>\<open>__proto__\<close>
  reaches the inherited setter, which ignores a string and creates no property.
\<close>

definition protoKey :: "byte list" where
  "protoKey = [95, 95, 112, 114, 111, 116, 111, 95, 95]"

definition assignProperty :: "kvd \<Rightarrow> byte list \<Rightarrow> byte list \<Rightarrow> kvd" where
  "assignProperty kv key val = (if key = protoKey then kv else kv(key \<mapsto> val))"

fun splitNul :: "byte list \<Rightarrow> (byte list \<times> byte list) option" where
  "splitNul [] = None"
| "splitNul (b # bs) =
     (if b = 0 then Some ([], bs)
      else (case splitNul bs of None \<Rightarrow> None | Some (k, v) \<Rightarrow> Some (b # k, v)))"

function parseKVDLoop :: "byte list \<Rightarrow> nat \<Rightarrow> nat \<Rightarrow> kvd \<Rightarrow> error + kvd" where
  "parseKVDLoop buf end off kv =
     (if off < end then
        (case getUint32 buf off of
           Inl e \<Rightarrow> Inl e
         | Inr kvByteLength \<Rightarrow>
             if kvByteLength = 0 then Inr kv
             else (case u8view buf (off + 4) kvByteLength of
                     Inl e \<Rightarrow> Inl e
                   | Inr bytes \<Rightarrow>
                       parseKVDLoop buf end
                         (off + 4 + kvByteLength + (4 - kvByteLength mod 4) mod 4)
                         (case splitNul bytes of
                            None \<Rightarrow> kv
                          | Some (key, val) \<Rightarrow> assignProperty kv key val)))
      else Inr kv)"
  by pat_completeness auto
termination
  by (relation "measure (\<lambda>(buf, end, off, kv). end - off)") auto

declare parseKVDLoop.simps [simp del]

definition parseKVD :: "byte list \<Rightarrow> nat \<Rightarrow> nat \<Rightarrow> error + kvd" where
  "parseKVD buf baseOffset len = parseKVDLoop buf (baseOffset + len) baseOffset Map.empty"

text \<open>
  Everything \<^verbatim>\<open>parseKTX2\<close> does before the supercompression dispatch (lines 200-262): the
  identifier view and comparison, the length check, header, index, level index, DFD, KVD,
  in the order of the source.
\<close>

definition parseContainer :: "byte list \<Rightarrow> error + parsed_texture" where
  "parseContainer buf =
     bindE (u8view buf 0 12) (\<lambda>identifier.
       if identifier \<noteq> KTX2_IDENTIFIER then Inl InvalidIdentifier
       else if length buf < 12 + 68 then Inl Truncated
       else
         bindE (readHeader buf) (\<lambda>h.
         bindE (readIndex buf) (\<lambda>ix.
         bindE (readLevels buf h 80 0 (iterLevelCount h)) (\<lambda>lvls.
         bindE (if dfdByteLength ix > 0
                then bindE (parseDFD buf (dfdByteOffset ix) (dfdByteLength ix)) (\<lambda>d. Inr (Some d))
                else Inr None) (\<lambda>d.
         bindE (if kvdByteLength ix > 0
                then bindE (parseKVD buf (kvdByteOffset ix) (kvdByteLength ix)) (\<lambda>k. Inr (Some k))
                else Inr None) (\<lambda>k.
           Inr \<lparr> header = h, index = ix, levels = lvls, dfd = d, kvd = k \<rparr>))))))"

section \<open>External collaborators\<close>

text \<open>
  The Zstandard decompressor and the Basis transcoder module are supplied by the page, not
  by this repository; the parser only calls them. They are parameters of the model, with
  every way a call can end that the source distinguishes: a result, or an exception
  (\<open>None\<close>).
\<close>

datatype handle_kind = KTX2File | BasisFile

text \<open>
  The behaviour of one opened backend file object. The level and format arguments are the
  ones that vary; the image, layer and face indices are the constant 0 in every call of the
  source. A method returns \<open>None\<close> when it throws. \<open>getNumImages = None\<close>: the object has no
  such method. \<open>getNumLevels\<close> stands for \<^verbatim>\<open>getLevels()\<close> of a KTX2File and
  \<^verbatim>\<open>getNumLevels(0)\<close> of a BasisFile. \<open>transcodeImage\<close> takes the size of the destination
  array and returns the status and the bytes written.
\<close>

record file_handle =
  startTranscoding :: "bool option"
  getNumImages :: "nat option option"
  getNumLevels :: "nat option"
  getImageTranscodedSizeInBytes :: "nat \<Rightarrow> nat \<Rightarrow> nat option"
  transcodeImage :: "nat \<Rightarrow> nat \<Rightarrow> nat \<Rightarrow> (bool \<times> byte list) option"

text \<open>
  \<open>newKTX2File = None\<close>: the build has no \<^verbatim>\<open>KTX2File\<close> class. A constructor returns
  \<open>None\<close> when it throws.
\<close>

record basis_module =
  newKTX2File :: "(byte list \<Rightarrow> file_handle option) option"
  newBasisFile :: "byte list \<Rightarrow> file_handle option"

text \<open>
  \<open>fzstd = None\<close>: \<^verbatim>\<open>loadFzstd\<close> rejected; the decompressor returns \<open>None\<close> when it throws.
  \<open>basisModule = None\<close>: \<^verbatim>\<open>loadBasisModule\<close> rejected.
\<close>

record env =
  fzstd :: "(byte list \<Rightarrow> byte list option) option"
  basisModule :: "basis_module option"

text \<open>
  What the parser does to the outside, in order: the warning of the Zstandard path and the
  calls on the backend file object.
\<close>

datatype event =
    SizeMismatchWarning nat nat nat
  | Opened handle_kind
  | StartTranscoding
  | QuerySize handle_kind nat nat
  | Transcode handle_kind nat nat
  | Closed
  | Deleted

section \<open>Supercompression resolver (read.js, parseKTX2, lines 265-506)\<close>

subsection \<open>Zstandard (lines 266-288)\<close>

fun zstdLoop ::
  "(byte list \<Rightarrow> byte list option) \<Rightarrow> byte list \<Rightarrow> nat \<Rightarrow> nat \<Rightarrow> level list
     \<Rightarrow> (error + level list) \<times> event list" where
  "zstdLoop dec buf i 0 lvls = (Inr lvls, [])"
| "zstdLoop dec buf i (Suc n) lvls =
     (case u8view buf (byteOffset (lvls ! i)) (byteLength (lvls ! i)) of
        Inl e \<Rightarrow> (Inl e, [])
      | Inr compressedData \<Rightarrow>
          (case dec compressedData of
             None \<Rightarrow> (Inl (DecompressFailed i), [])
           | Some decompressedData' \<Rightarrow>
               (case zstdLoop dec buf (Suc i) n
                       (lvls[i := (lvls ! i)\<lparr> isDecompressed := True,
                                              decompressedData := Some decompressedData' \<rparr>]) of
                  (r, evs) \<Rightarrow>
                    (r, (if length decompressedData' \<noteq> uncompressedByteLength (lvls ! i)
                         then [SizeMismatchWarning i (length decompressedData')
                                 (uncompressedByteLength (lvls ! i))]
                         else []) @ evs))))"

definition zstdPath :: "env \<Rightarrow> byte list \<Rightarrow> level list \<Rightarrow> (error + level list) \<times> event list" where
  "zstdPath en buf lvls =
     (case fzstd en of
        None \<Rightarrow> (Inl FzstdLoadFailed, [])
      | Some dec \<Rightarrow> zstdLoop dec buf 0 (length lvls) lvls)"

subsection \<open>One level through the backend (lines 325-337 and 437-477)\<close>

datatype attempt = Decoded "byte list" | NoPayload | Threw

text \<open>
  The body shared by both Basis loops: ask for the transcoded size, stop on size 0,
  allocate \<^verbatim>\<open>dst = new Uint8Array(size)\<close>, transcode into it, and test
  \<^verbatim>\<open>status && dst && dst.length > 0\<close>.
\<close>

definition transcodeLevel :: "handle_kind \<Rightarrow> file_handle \<Rightarrow> nat \<Rightarrow> nat \<Rightarrow> attempt \<times> event list" where
  "transcodeLevel k f i fmt =
     (case getImageTranscodedSizeInBytes f i fmt of
        None \<Rightarrow> (Threw, [QuerySize k i fmt])
      | Some sz \<Rightarrow>
          if sz = 0 then (NoPayload, [QuerySize k i fmt])
          else (case transcodeImage f i fmt sz of
                  None \<Rightarrow> (Threw, [QuerySize k i fmt, Transcode k i fmt])
                | Some (status, written) \<Rightarrow>
                    (let dst = take sz (written @ replicate sz 0)
                     in (if status \<and> length dst > 0 then Decoded dst else NoPayload,
                         [QuerySize k i fmt, Transcode k i fmt]))))"

definition setTranscoded :: "level list \<Rightarrow> nat \<Rightarrow> byte list \<Rightarrow> nat \<Rightarrow> level list" where
  "setTranscoded lvls i dst fmt =
     lvls[i := (lvls ! i)\<lparr> isDecompressed := True, decompressedData := Some dst,
                            transcodedFormat := Some fmt \<rparr>]"

subsection \<open>Raw Basis data, scheme None with format code 0 (lines 290-350)\<close>

text \<open>
  The loop of lines 321-347 has no \<^verbatim>\<open>try\<close>: an exception of the backend leaves
  \<^verbatim>\<open>parseKTX2\<close> at once.
\<close>

fun rawBasisLoop ::
  "handle_kind \<Rightarrow> file_handle \<Rightarrow> nat \<Rightarrow> nat \<Rightarrow> nat \<Rightarrow> level list
     \<Rightarrow> (error + level list) \<times> event list" where
  "rawBasisLoop k f fmt i 0 lvls = (Inr lvls, [])"
| "rawBasisLoop k f fmt i (Suc n) lvls =
     (case transcodeLevel k f i fmt of
        (Threw, evs) \<Rightarrow> (Inl BackendThrew, evs)
      | (NoPayload, evs) \<Rightarrow> (Inr lvls, evs)
      | (Decoded dst, evs) \<Rightarrow>
          (case rawBasisLoop k f fmt (Suc i) n (setTranscoded lvls i dst fmt) of
             (r, evs') \<Rightarrow> (r, evs @ evs')))"

definition rawBasisPath :: "env \<Rightarrow> byte list \<Rightarrow> level list \<Rightarrow> (error + level list) \<times> event list" where
  "rawBasisPath en buf lvls =
     (case basisModule en of
        None \<Rightarrow> (Inl BasisLoadFailed, [])
      | Some m \<Rightarrow>
          (case (case newKTX2File m of
                   Some ctor \<Rightarrow>
                     (case ctor buf of None \<Rightarrow> Inl BackendThrew | Some f \<Rightarrow> Inr (KTX2File, f))
                 | None \<Rightarrow>
                     (case newBasisFile m buf of
                        None \<Rightarrow> Inl BackendThrew
                      | Some f \<Rightarrow> Inr (BasisFile, f))) of
             Inl e \<Rightarrow> (Inl e, [])
           | Inr (k, f) \<Rightarrow>
               (case startTranscoding f of
                  None \<Rightarrow> (Inl BackendThrew, [Opened k, StartTranscoding])
                | Some started \<Rightarrow>
                    if \<not> started
                    then (Inl TranscoderInitFailed, [Opened k, StartTranscoding, Closed, Deleted])
                    else (case getNumLevels f of
                            None \<Rightarrow> (Inl BackendThrew, [Opened k, StartTranscoding])
                          | Some transcoderLevelCount \<Rightarrow>
                              (let safeLevelCount = min (length lvls) transcoderLevelCount
                               in (case rawBasisLoop k f 13 0 safeLevelCount lvls of
                                     (Inl e, evs) \<Rightarrow> (Inl e, [Opened k, StartTranscoding] @ evs)
                                   | (Inr lvls', evs) \<Rightarrow>
                                       (Inr lvls',
                                        [Opened k, StartTranscoding] @ evs @ [Closed, Deleted])))))))"

subsection \<open>BasisLZ (lines 352-500)\<close>

definition getBasisTargetFormatForGPU :: nat where
  "getBasisTargetFormatForGPU = 13"

text \<open>
  The loop of lines 430-492 wraps the backend calls in \<^verbatim>\<open>try\<close>/\<^verbatim>\<open>catch\<close> and leaves the
  loop on an exception. The KTX2File branch transcodes to the constant \<^verbatim>\<open>RGBA32 = 13\<close>, the
  other branch to \<open>fmt\<close>.
\<close>

fun basisLZLoop ::
  "handle_kind \<Rightarrow> file_handle \<Rightarrow> nat \<Rightarrow> nat \<Rightarrow> nat \<Rightarrow> level list \<Rightarrow> level list \<times> event list" where
  "basisLZLoop k f fmt i 0 lvls = (lvls, [])"
| "basisLZLoop k f fmt i (Suc n) lvls =
     (let actualFormat = (if k = KTX2File then 13 else fmt)
      in (case transcodeLevel k f i actualFormat of
            (Threw, evs) \<Rightarrow> (lvls, evs)
          | (NoPayload, evs) \<Rightarrow> (lvls, evs)
          | (Decoded dst, evs) \<Rightarrow>
              (case basisLZLoop k f fmt (Suc i) n (setTranscoded lvls i dst actualFormat) of
                 (r, evs') \<Rightarrow> (r, evs @ evs'))))"

definition basisLZPath ::
  "env \<Rightarrow> byte list \<Rightarrow> dfd option \<Rightarrow> level list \<Rightarrow> (error + level list) \<times> event list" where
  "basisLZPath en buf d lvls =
     (let isUASTC = (case d of None \<Rightarrow> False | Some x \<Rightarrow> colorModel x = 166);
          targetFormat = (13 :: nat)
      in (case basisModule en of
            None \<Rightarrow> (Inl BasisLoadFailed, [])
          | Some m \<Rightarrow>
              (case (case (case newKTX2File m of None \<Rightarrow> None | Some ctor \<Rightarrow> ctor buf) of
                       Some f \<Rightarrow> Inr (KTX2File, f)
                     | None \<Rightarrow>
                         (case newBasisFile m buf of
                            None \<Rightarrow> Inl BackendThrew
                          | Some f \<Rightarrow> Inr (BasisFile, f))) of
                 Inl e \<Rightarrow> (Inl e, [])
               | Inr (k, f) \<Rightarrow>
                   (case startTranscoding f of
                      None \<Rightarrow> (Inl BackendThrew, [Opened k, StartTranscoding])
                    | Some started \<Rightarrow>
                        if \<not> started
                        then (Inl TranscoderInitFailed,
                              [Opened k, StartTranscoding, Closed, Deleted])
                        else
                          (case (if k \<noteq> KTX2File
                                 then (case getNumImages f of None \<Rightarrow> Some 1 | Some c \<Rightarrow> c)
                                 else Some 1) of
                             None \<Rightarrow> (Inl BackendThrew, [Opened k, StartTranscoding])
                           | Some imageCount \<Rightarrow>
                               if imageCount = 0
                               then (Inl FileHasNoImages,
                                     [Opened k, StartTranscoding, Closed, Deleted])
                               else
                                 (let format = getBasisTargetFormatForGPU;
                                      transcoderLevelCount =
                                        (case getNumLevels f of None \<Rightarrow> 1 | Some c \<Rightarrow> c);
                                      safeLevelCount = min (length lvls) transcoderLevelCount
                                  in (case basisLZLoop k f format 0 safeLevelCount lvls of
                                        (lvls', evs) \<Rightarrow>
                                          (Inr lvls',
                                           [Opened k, StartTranscoding] @ evs
                                             @ [Closed, Deleted]))))))))"

subsection \<open>Dispatch and result (lines 266, 290, 352, 502-509)\<close>

definition resolveSupercompression ::
  "env \<Rightarrow> byte list \<Rightarrow> ktx_header \<Rightarrow> dfd option \<Rightarrow> level list
     \<Rightarrow> (error + level list) \<times> event list" where
  "resolveSupercompression en buf h d lvls =
     (if supercompressionScheme h = SUPERCOMPRESSION_ZSTD then zstdPath en buf lvls
      else if vkFormat h = 0 \<and> supercompressionScheme h = SUPERCOMPRESSION_NONE
        then rawBasisPath en buf lvls
      else if supercompressionScheme h = SUPERCOMPRESSION_BASIS_LZ
        then basisLZPath en buf d lvls
      else if supercompressionScheme h = SUPERCOMPRESSION_ZLIB
        then (Inl ZlibNotSupported, [])
      else if supercompressionScheme h \<noteq> SUPERCOMPRESSION_NONE
        then (Inl (UnknownSupercompression (supercompressionScheme h)), [])
      else (Inr lvls, []))"

definition parseKTX2 :: "env \<Rightarrow> byte list \<Rightarrow> (error + parsed_texture) \<times> event list" where
  "parseKTX2 en buf =
     (case parseContainer buf of
        Inl e \<Rightarrow> (Inl e, [])
      | Inr p \<Rightarrow>
          (case resolveSupercompression en buf (header p) (dfd p) (levels p) of
             (Inl e, evs) \<Rightarrow> (Inl e, evs)
           | (Inr lvls', evs) \<Rightarrow> (Inr (p\<lparr> levels := lvls' \<rparr>), evs)))"

section \<open>Level accessor (read.js, getLevelData, lines 562-567)\<close>

definition getLevelData :: "byte list \<Rightarrow> level \<Rightarrow> error + byte list" where
  "getLevelData arrayBuffer lvl =
     (case (isDecompressed lvl, decompressedData lvl) of
        (True, Some d) \<Rightarrow> Inr d
      | _ \<Rightarrow> u8view arrayBuffer (byteOffset lvl) (byteLength lvl))"

section \<open>Format resolution table (read.js, lines 821-948)\<close>

record format_info =
  format :: string
  blockWidth :: "nat option"
  blockHeight :: "nat option"
  bytesPerBlock :: "nat option"
  bytesPerPixel :: "nat option"
  sourceChannels :: "nat option"
  sourceBytesPerPixel :: "nat option"

definition blockFormat :: "string \<Rightarrow> nat \<Rightarrow> nat \<Rightarrow> nat \<Rightarrow> format_info" where
  "blockFormat name bw bh bpb =
     \<lparr> format = name, blockWidth = Some bw, blockHeight = Some bh, bytesPerBlock = Some bpb,
       bytesPerPixel = None, sourceChannels = None, sourceBytesPerPixel = None \<rparr>"

definition pixelFormat :: "string \<Rightarrow> nat \<Rightarrow> nat option \<Rightarrow> nat option \<Rightarrow> format_info" where
  "pixelFormat name bpp sc sbpp =
     \<lparr> format = name, blockWidth = None, blockHeight = None, bytesPerBlock = None,
       bytesPerPixel = Some bpp, sourceChannels = sc, sourceBytesPerPixel = sbpp \<rparr>"

definition formats :: "(nat \<times> format_info) list" where
  "formats =
     [(131, blockFormat ''bc1-rgba-unorm'' 4 4 8),
      (132, blockFormat ''bc1-rgba-unorm-srgb'' 4 4 8),
      (135, blockFormat ''bc2-rgba-unorm'' 4 4 16),
      (136, blockFormat ''bc2-rgba-unorm-srgb'' 4 4 16),
      (137, blockFormat ''bc3-rgba-unorm'' 4 4 16),
      (138, blockFormat ''bc3-rgba-unorm-srgb'' 4 4 16),
      (139, blockFormat ''bc4-r-unorm'' 4 4 8),
      (140, blockFormat ''bc4-r-snorm'' 4 4 8),
      (141, blockFormat ''bc5-rg-unorm'' 4 4 16),
      (142, blockFormat ''bc5-rg-snorm'' 4 4 16),
      (143, blockFormat ''bc6h-rgb-ufloat'' 4 4 16),
      (144, blockFormat ''bc6h-rgb-float'' 4 4 16),
      (145, blockFormat ''bc7-rgba-unorm'' 4 4 16),
      (146, blockFormat ''bc7-rgba-unorm-srgb'' 4 4 16),
      (148, blockFormat ''etc2-rgb8unorm'' 4 4 8),
      (149, blockFormat ''etc2-rgb8unorm-srgb'' 4 4 8),
      (152, blockFormat ''etc2-rgb8unorm'' 4 4 8),
      (153, blockFormat ''etc2-rgb8a1unorm'' 4 4 8),
      (154, blockFormat ''etc2-rgba8unorm'' 4 4 16),
      (157, blockFormat ''astc-4x4-unorm'' 4 4 16),
      (159, blockFormat ''astc-5x4-unorm'' 5 4 16),
      (161, blockFormat ''astc-5x5-unorm'' 5 5 16),
      (163, blockFormat ''astc-6x5-unorm'' 6 5 16),
      (165, blockFormat ''astc-6x6-unorm'' 6 6 16),
      (158, blockFormat ''astc-4x4-unorm-srgb'' 4 4 16),
      (160, blockFormat ''astc-4x4-unorm-srgb'' 4 4 16),
      (162, blockFormat ''astc-5x5-unorm-srgb'' 5 5 16),
      (164, blockFormat ''astc-6x5-unorm-srgb'' 6 5 16),
      (166, blockFormat ''astc-6x6-unorm-srgb'' 6 6 16),
      (23, pixelFormat ''rgba8unorm'' 4 (Some 3) None),
      (24, pixelFormat ''rgba8unorm-srgb'' 4 (Some 3) None),
      (29, pixelFormat ''rgba8unorm'' 4 (Some 3) None),
      (37, pixelFormat ''rgba8unorm'' 4 None None),
      (43, pixelFormat ''rgba8unorm-srgb'' 4 None None),
      (97, pixelFormat ''rgba16float'' 8 None None),
      (109, pixelFormat ''rgba16float'' 8 None (Some 16)),
      (100, pixelFormat ''rg11b10ufloat'' 4 None None),
      (122, pixelFormat ''rg11b10ufloat'' 4 None None),
      (99, pixelFormat ''rgb9e5ufloat'' 4 None None),
      (123, pixelFormat ''rgb9e5ufloat'' 4 None None)]"

definition vkFormatToWebGPU :: "nat \<Rightarrow> format_info option" where
  "vkFormatToWebGPU vk = map_of formats vk"

text \<open>
  \<open>truthy\<close> is the JavaScript test of an optional number: present and not 0.
  \<^verbatim>\<open>dfd.bytesPlane[0]\<close> is \<^verbatim>\<open>undefined\<close> on an empty array.
\<close>

definition truthy :: "nat option \<Rightarrow> bool" where
  "truthy v = (case v of None \<Rightarrow> False | Some n \<Rightarrow> n \<noteq> 0)"

definition firstPlane :: "dfd \<Rightarrow> nat option" where
  "firstPlane d = (case bytesPlane d of [] \<Rightarrow> None | b # _ \<Rightarrow> Some b)"

definition applyDFDCorrections :: "format_info option \<Rightarrow> dfd option \<Rightarrow> nat \<Rightarrow> format_info option" where
  "applyDFDCorrections formatInfo d vk =
     (case (formatInfo, d) of
        (Some fi, Some x) \<Rightarrow>
          if truthy (blockWidth fi) \<and> truthy (firstPlane x) then
            (let dfdBytesPerBlock = firstPlane x
             in if dfdBytesPerBlock \<noteq> bytesPerBlock fi then
                  (let fi' = fi\<lparr> bytesPerBlock := dfdBytesPerBlock \<rparr>
                   in if vk \<ge> 148 \<and> vk \<le> 154 then
                        (if dfdBytesPerBlock = Some 8 then
                           (if colorModel x = 160 then Some (fi'\<lparr> format := ''etc2-rgb8unorm'' \<rparr>)
                            else if colorModel x = 162
                              then Some (fi'\<lparr> format := ''etc2-rgb8a1unorm'' \<rparr>)
                            else Some (fi'\<lparr> format := ''etc2-rgb8unorm'' \<rparr>))
                         else if dfdBytesPerBlock = Some 16
                           then Some (fi'\<lparr> format := ''etc2-rgba8unorm'' \<rparr>)
                         else Some fi')
                      else Some fi')
                else Some fi)
          else Some fi
      | _ \<Rightarrow> formatInfo)"

section \<open>Upload preparer (main.js)\<close>

subsection \<open>Row padding (padRows, lines 45-56)\<close>

record padded =
  data :: "byte list"
  bytesPerRow :: nat

text \<open>
  \<^verbatim>\<open>src.subarray(begin, end)\<close> clamps both ends to the array; \<^verbatim>\<open>dst.set(src, offset)\<close> raises
  a \<open>RangeError\<close> when the source does not fit.
\<close>

definition subarray :: "byte list \<Rightarrow> nat \<Rightarrow> nat \<Rightarrow> byte list" where
  "subarray src b e = take (e - b) (drop b src)"

definition typedSet :: "byte list \<Rightarrow> byte list \<Rightarrow> nat \<Rightarrow> error + byte list" where
  "typedSet dst src off =
     (if off + length src \<le> length dst
      then Inr (take off dst @ src @ drop (off + length src) dst)
      else Inl RangeError)"

fun padRowsLoop :: "byte list \<Rightarrow> nat \<Rightarrow> nat \<Rightarrow> nat \<Rightarrow> nat \<Rightarrow> byte list \<Rightarrow> error + byte list" where
  "padRowsLoop src rowStride aligned y 0 dst = Inr dst"
| "padRowsLoop src rowStride aligned y (Suc n) dst =
     (let s0 = y * rowStride; d0 = y * aligned
      in bindE (typedSet dst (subarray src s0 (s0 + rowStride)) d0)
           (\<lambda>dst'. padRowsLoop src rowStride aligned (Suc y) n dst'))"

text \<open>\<^verbatim>\<open>Math.ceil(rowStride / 256) * 256\<close> on a non-negative integer.\<close>

definition alignUp256 :: "nat \<Rightarrow> nat" where
  "alignUp256 rowStride = ((rowStride + 255) div 256) * 256"

definition padRows :: "byte list \<Rightarrow> nat \<Rightarrow> nat \<Rightarrow> nat \<Rightarrow> error + padded" where
  "padRows src w h bpp =
     (let rowStride = w * bpp; aligned = alignUp256 rowStride
      in if aligned = rowStride then Inr \<lparr> data = src, bytesPerRow = rowStride \<rparr>
         else bindE (padRowsLoop src rowStride aligned 0 h (replicate (aligned * h) 0))
                (\<lambda>dst. Inr \<lparr> data = dst, bytesPerRow = aligned \<rparr>))"

subsection \<open>Float downconversion (float32ToFloat16, lines 561-582)\<close>

text \<open>
  The argument is the bit pattern \<^verbatim>\<open>intView[0]\<close> of the 32-bit float; the result is the
  number the function returns.
\<close>

definition float32ToFloat16 :: "32 word \<Rightarrow> int" where
  "float32ToFloat16 v =
     (let x = uint v;
          sign = js_and (js_sar x 31) 0x1;
          exp = js_and (js_sar x 23) 0xFF - 112;
          mant = js_and (js_sar x 13) 0x3FF
      in if exp \<le> 0 then
           (if exp < - 10 then js_shl sign 15
            else js_or (js_or (js_shl sign 15) (js_shl 0 10))
                   (js_sar (js_or mant 0x400) (1 - exp)))
         else if exp \<ge> 31 then js_or (js_or (js_shl sign 15) (js_shl 31 10)) 0
         else js_or (js_or (js_shl sign 15) (js_shl exp 10)) mant)"

text \<open>
  \<^verbatim>\<open>convertRGBA32FtoRGBA16F(src, width, height)\<close> (lines 584-594) reads \<^verbatim>\<open>src.buffer\<close> from
  \<^verbatim>\<open>src.byteOffset\<close> as 32-bit floats and returns the bytes of a \<^verbatim>\<open>Uint16Array\<close>; both in
  the byte order of the platform, little-endian. A \<^verbatim>\<open>Float32Array\<close> view needs an offset
  that is a multiple of 4.
\<close>

definition f32bits :: "byte list \<Rightarrow> nat \<Rightarrow> 32 word" where
  "f32bits buf off = word_of_nat (le_value (take 4 (drop off buf)))"

definition u16bytes :: "int \<Rightarrow> byte list" where
  "u16bytes k = [word_of_int (k mod 65536), word_of_int (k mod 65536 div 256)]"

definition convertRGBA32FtoRGBA16F :: "byte list \<Rightarrow> nat \<Rightarrow> nat \<Rightarrow> nat \<Rightarrow> error + byte list" where
  "convertRGBA32FtoRGBA16F srcBuffer srcByteOffset w h =
     (let pixelCount = w * h
      in if srcByteOffset mod 4 \<noteq> 0 \<or> srcByteOffset + 4 * (pixelCount * 4) > length srcBuffer
         then Inl RangeError
         else Inr (concat (map (\<lambda>i. u16bytes (float32ToFloat16 (f32bits srcBuffer (srcByteOffset + 4 * i))))
                             [0 ..< pixelCount * 4])))"

section \<open>IEEE-754 encodings as numbers\<close>

text \<open>
  The value of a binary32 and of a binary16 bit pattern, \<open>None\<close> for infinities and NaNs.
  These two say what the bit patterns mean; they are not code of the repository.
\<close>

definition pow2 :: "int \<Rightarrow> rat" where
  "pow2 k = (if k \<ge> 0 then 2 ^ nat k else 1 / 2 ^ nat (- k))"

definition single_value :: "32 word \<Rightarrow> rat option" where
  "single_value v =
     (let x = unat v; s = x div 2 ^ 31; e = (x div 2 ^ 23) mod 256; m = x mod 2 ^ 23
      in if e = 255 then None
         else Some ((if s = 1 then - 1 else 1) *
                    (if e = 0 then of_nat m * pow2 (- 149)
                     else of_nat (2 ^ 23 + m) * pow2 (int e - 150))))"

definition half_value :: "int \<Rightarrow> rat option" where
  "half_value r =
     (let x = nat r; s = x div 2 ^ 15; e = (x div 2 ^ 10) mod 32; m = x mod 2 ^ 10
      in if e = 31 then None
         else Some ((if s = 1 then - 1 else 1) *
                    (if e = 0 then of_nat m * pow2 (- 24)
                     else of_nat (2 ^ 10 + m) * pow2 (int e - 25))))"

section \<open>The conversion as arithmetic on the fields\<close>

text \<open>
  What the amended C8 says, written on the sign \<open>s\<close>, the biased exponent \<open>e\<close> and the
  23-bit mantissa \<open>m\<close> of the input: exponents below 102 give a signed zero, exponents
  102 to 112 the subnormal \<open>(2 ^ 23 + m) div 2 ^ (126 - e)\<close>, exponents 113 to 142 the
  exponent \<open>e - 112\<close> with the top ten mantissa bits, and exponents from 143 on (also
  infinities and NaNs) the signed infinity. No case rounds up.
\<close>

definition truncateToHalf :: "32 word \<Rightarrow> int" where
  "truncateToHalf v =
     (let x = uint v; s = x div 2 ^ 31; e = (x div 2 ^ 23) mod 256; m = x mod 2 ^ 23
      in if e < 102 then s * 2 ^ 15
         else if e < 113 then s * 2 ^ 15 + (2 ^ 23 + m) div 2 ^ nat (126 - e)
         else if e < 143 then s * 2 ^ 15 + (e - 112) * 2 ^ 10 + m div 2 ^ 13
         else s * 2 ^ 15 + 31 * 2 ^ 10)"

section \<open>Notions used in the statements\<close>

text \<open>
  The stored dimensions of a level sequence; what the decompressor returns for the byte
  range of a level (\<open>None\<close> when the range leaves the buffer or the decompressor throws);
  and the warning that level \<open>j\<close> gives rise to.
\<close>

definition dims :: "level list \<Rightarrow> (int \<times> int) list" where
  "dims ls = map (\<lambda>l. (width l, height l)) ls"

definition zstdOutput :: "(byte list \<Rightarrow> byte list option) \<Rightarrow> byte list \<Rightarrow> level \<Rightarrow> byte list option" where
  "zstdOutput dec buf l =
     (case u8view buf (byteOffset l) (byteLength l) of Inl e \<Rightarrow> None | Inr c \<Rightarrow> dec c)"

definition sizeWarning :: "(byte list \<Rightarrow> byte list option) \<Rightarrow> byte list \<Rightarrow> level list \<Rightarrow> nat \<Rightarrow> event list" where
  "sizeWarning dec buf lvls j =
     (case zstdOutput dec buf (lvls ! j) of
        None \<Rightarrow> []
      | Some d \<Rightarrow>
          if length d \<noteq> uncompressedByteLength (lvls ! j)
          then [SizeMismatchWarning j (length d) (uncompressedByteLength (lvls ! j))]
          else [])"


fun backendCall :: "event \<Rightarrow> (handle_kind \<times> nat) option" where
  "backendCall (QuerySize k i fmt) = Some (k, fmt)"
| "backendCall (Transcode k i fmt) = Some (k, fmt)"
| "backendCall ev = None"

text \<open>
  For the Basis loops: the number of consecutive levels from \<open>i\<close> on, among the next
  \<open>n\<close>, that the backend transcodes to a non-empty payload; the payload of a level; a
  level descriptor after a successful transcode; a level that carries a non-empty payload
  and the flag; and a level without any decode outcome.
\<close>

fun decodedCount :: "handle_kind \<Rightarrow> file_handle \<Rightarrow> nat \<Rightarrow> nat \<Rightarrow> nat \<Rightarrow> nat" where
  "decodedCount k f fmt i 0 = 0"
| "decodedCount k f fmt i (Suc n) =
     (case fst (transcodeLevel k f i fmt) of
        Decoded dst \<Rightarrow> Suc (decodedCount k f fmt (Suc i) n)
      | _ \<Rightarrow> 0)"

definition payloadOf :: "handle_kind \<Rightarrow> file_handle \<Rightarrow> nat \<Rightarrow> nat \<Rightarrow> byte list option" where
  "payloadOf k f fmt i =
     (case fst (transcodeLevel k f i fmt) of Decoded dst \<Rightarrow> Some dst | _ \<Rightarrow> None)"

definition transcodedLevel :: "handle_kind \<Rightarrow> file_handle \<Rightarrow> nat \<Rightarrow> nat \<Rightarrow> level \<Rightarrow> level" where
  "transcodedLevel k f fmt i l =
     l\<lparr> isDecompressed := True, decompressedData := payloadOf k f fmt i,
        transcodedFormat := Some fmt \<rparr>"

definition decodedNonEmpty :: "level \<Rightarrow> bool" where
  "decodedNonEmpty l =
     (isDecompressed l \<and> (case decompressedData l of None \<Rightarrow> False | Some dst \<Rightarrow> dst \<noteq> []))"

definition untouched :: "level \<Rightarrow> bool" where
  "untouched l = (\<not> isDecompressed l \<and> decompressedData l = None \<and> transcodedFormat l = None)"

section \<open>Sample inputs\<close>

text \<open>
  A 160-byte file: identifier, header (format code \<open>vk\<close>, 8 by 8 pixels, two levels,
  scheme \<open>sc\<close>), index (a 28-byte DFD at offset 128, no KVD), two level entries (offset
  156, length 4, declared uncompressed length 8), the DFD with colour model \<open>cm\<close> and
  first-plane byte count 16, and four bytes of level data.
\<close>

definition sampleFile :: "byte \<Rightarrow> byte \<Rightarrow> byte \<Rightarrow> byte list" where
  "sampleFile vk sc cm =
     [0xAB, 0x4B, 0x54, 0x58, 0x20, 0x32, 0x30, 0xBB, 0x0D, 0x0A, 0x1A, 0x0A,
      vk, 0, 0, 0, 1, 0, 0, 0, 8, 0, 0, 0, 8, 0, 0, 0,
      0, 0, 0, 0, 0, 0, 0, 0, 1, 0, 0, 0, 2, 0, 0, 0,
      sc, 0, 0, 0, 128, 0, 0, 0, 28, 0, 0, 0,
      0, 0, 0, 0, 0, 0, 0, 0, 0, 0, 0, 0, 0, 0, 0, 0, 0, 0, 0, 0, 0, 0, 0, 0,
      156, 0, 0, 0, 0, 0, 0, 0, 4, 0, 0, 0, 0, 0, 0, 0, 8, 0, 0, 0, 0, 0, 0, 0,
      156, 0, 0, 0, 0, 0, 0, 0, 4, 0, 0, 0, 0, 0, 0, 0, 8, 0, 0, 0, 0, 0, 0, 0,
      28, 0, 0, 0, 0, 0, 0, 0, 2, 0, 24, 0,
      cm, 1, 1, 0, 3, 3, 0, 0, 16, 0, 0, 0, 0, 0, 0, 0,
      1, 2, 3, 4]"

text \<open>
  A backend file object that reports four levels of 4 bytes each, transcodes the levels
  below \<open>good\<close> and, from there on, either throws or reports failure.
\<close>

definition sampleHandle :: "nat \<Rightarrow> bool \<Rightarrow> file_handle" where
  "sampleHandle good throws =
     \<lparr> startTranscoding = Some True, getNumImages = Some (Some 1), getNumLevels = Some 4,
       getImageTranscodedSizeInBytes = (\<lambda>i fmt. Some 4),
       transcodeImage = (\<lambda>i fmt sz. if i < good then Some (True, [9, 9, 9, 9])
                                     else if throws then None else Some (False, [])) \<rparr>"

text \<open>
  An environment whose decompressor triples its input and whose transcoder module opens
  \<open>sampleHandle\<close>, with or without a \<^verbatim>\<open>KTX2File\<close> class.
\<close>

definition sampleEnv :: "bool \<Rightarrow> nat \<Rightarrow> bool \<Rightarrow> env" where
  "sampleEnv hasKTX2File good throws =
     \<lparr> fzstd = Some (\<lambda>c. Some (c @ c @ c)),
       basisModule =
         Some \<lparr> newKTX2File =
                  (if hasKTX2File then Some (\<lambda>b. Some (sampleHandle good throws)) else None),
                newBasisFile = (\<lambda>b. Some (sampleHandle good throws)) \<rparr> \<rparr>"

text \<open>What the container parser reads from \<open>sampleFile\<close>.\<close>

definition sampleHeader :: "byte \<Rightarrow> byte \<Rightarrow> ktx_header" where
  "sampleHeader vk sc =
     \<lparr> vkFormat = unat vk, typeSize = 1, pixelWidth = 8, pixelHeight = 8, pixelDepth = 0,
       layerCount = 0, faceCount = 1, levelCount = 2, supercompressionScheme = unat sc \<rparr>"

definition sampleLevel :: "int \<Rightarrow> level" where
  "sampleLevel w =
     \<lparr> byteOffset = 156, byteLength = 4, uncompressedByteLength = 8, width = w, height = w,
       isDecompressed = False, decompressedData = None, transcodedFormat = None \<rparr>"

definition sampleDFD :: "byte \<Rightarrow> dfd" where
  "sampleDFD cm =
     \<lparr> totalSize = 28, vendorId = 0, descriptorType = 0, versionNumber = 2,
       descriptorBlockSize = 24, colorModel = unat cm, colorPrimaries = 1,
       transferFunction = 1, flags = 0, texelBlockDimension = [3, 3, 0, 0],
       bytesPlane = [16, 0, 0, 0, 0, 0, 0, 0] \<rparr>"

definition sampleIndex :: ktx_index where
  "sampleIndex =
     \<lparr> dfdByteOffset = 128, dfdByteLength = 28, kvdByteOffset = 0, kvdByteLength = 0,
       sgdByteOffset = 0, sgdByteLength = 0 \<rparr>"

definition sampleParsed :: "byte \<Rightarrow> byte \<Rightarrow> byte \<Rightarrow> parsed_texture" where
  "sampleParsed vk sc cm =
     \<lparr> header = sampleHeader vk sc, index = sampleIndex,
       levels = [sampleLevel 8, sampleLevel 4], dfd = Some (sampleDFD cm), kvd = None \<rparr>"

text \<open>Two rows of three 4-byte pixels.\<close>

definition sampleRows :: "byte list" where
  "sampleRows = [1, 2, 3, 4, 5, 6, 7, 8, 9, 10, 11, 12,
                 13, 14, 15, 16, 17, 18, 19, 20, 21, 22, 23, 24]"


text \<open>A level of the sample file after the sample backend has transcoded it.\<close>

definition decodedLevel :: "int \<Rightarrow> level" where
  "decodedLevel w =
     (sampleLevel w)\<lparr> isDecompressed := True, decompressedData := Some [9, 9, 9, 9],
                       transcodedFormat := Some 13 \<rparr>"

text \<open>
  One pixel of four 32-bit floats: 1.0, a value a little above 1.0 (\<open>0x3F801800\<close>), -2.0
  and a NaN.
\<close>

definition samplePixel :: "byte list" where
  "samplePixel = [0, 0, 128, 63, 0, 24, 128, 63, 0, 0, 0, 192, 0, 0, 192, 127]"

text \<open>
  The sample file with format code 37 (an uncompressed format), no supercompression,
  colour model 160 and \<open>pixelWidth = 0x80000008\<close> (bytes 20 to 23), and what
  \<open>parseKTX2\<close> returns for it.
\<close>

definition wideFile :: "byte list" where
  "wideFile =
     [0xAB, 0x4B, 0x54, 0x58, 0x20, 0x32, 0x30, 0xBB, 0x0D, 0x0A, 0x1A, 0x0A,
      37, 0, 0, 0, 1, 0, 0, 0, 8, 0, 0, 0x80, 8, 0, 0, 0,
      0, 0, 0, 0, 0, 0, 0, 0, 1, 0, 0, 0, 2, 0, 0, 0,
      0, 0, 0, 0, 128, 0, 0, 0, 28, 0, 0, 0,
      0, 0, 0, 0, 0, 0, 0, 0, 0, 0, 0, 0, 0, 0, 0, 0, 0, 0, 0, 0, 0, 0, 0, 0,
      156, 0, 0, 0, 0, 0, 0, 0, 4, 0, 0, 0, 0, 0, 0, 0, 8, 0, 0, 0, 0, 0, 0, 0,
      156, 0, 0, 0, 0, 0, 0, 0, 4, 0, 0, 0, 0, 0, 0, 0, 8, 0, 0, 0, 0, 0, 0, 0,
      28, 0, 0, 0, 0, 0, 0, 0, 2, 0, 24, 0,
      160, 1, 1, 0, 3, 3, 0, 0, 16, 0, 0, 0, 0, 0, 0, 0,
      1, 2, 3, 4]"

definition wideHeader :: ktx_header where
  "wideHeader =
     \<lparr> vkFormat = 37, typeSize = 1, pixelWidth = 0x80000008, pixelHeight = 8, pixelDepth = 0,
       layerCount = 0, faceCount = 1, levelCount = 2, supercompressionScheme = 0 \<rparr>"

definition wideLevel :: "int \<Rightarrow> int \<Rightarrow> level" where
  "wideLevel w h =
     \<lparr> byteOffset = 156, byteLength = 4, uncompressedByteLength = 8, width = w, height = h,
       isDecompressed = False, decompressedData = None, transcodedFormat = None \<rparr>"

definition wideParsed :: parsed_texture where
  "wideParsed =
     \<lparr> header = wideHeader, index = sampleIndex, levels = [wideLevel 1 8, wideLevel 1 4],
       dfd = Some (sampleDFD 160), kvd = None \<rparr>"

text \<open>
  A file of 33 levels: an 80-byte header (format code 37, 8 by 8 pixels, no
  supercompression, no DFD, no KVD) and a level index of 33 zero entries.
\<close>

definition deepHeader :: "byte list" where
  "deepHeader =
     [0xAB, 0x4B, 0x54, 0x58, 0x20, 0x32, 0x30, 0xBB, 0x0D, 0x0A, 0x1A, 0x0A,
      37, 0, 0, 0, 1, 0, 0, 0, 8, 0, 0, 0, 8, 0, 0, 0,
      0, 0, 0, 0, 0, 0, 0, 0, 1, 0, 0, 0, 33, 0, 0, 0,
      0, 0, 0, 0, 0, 0, 0, 0, 0, 0, 0, 0,
      0, 0, 0, 0, 0, 0, 0, 0, 0, 0, 0, 0, 0, 0, 0, 0, 0, 0, 0, 0, 0, 0, 0, 0]"

definition deepFile :: "byte list" where
  "deepFile = deepHeader @ replicate (33 * 24) 0"

text \<open>The header that the container parser reads from \<open>deepFile\<close>.\<close>

definition deepHeaderParsed :: ktx_header where
  "deepHeaderParsed =
     \<lparr> vkFormat = 37, typeSize = 1, pixelWidth = 8, pixelHeight = 8, pixelDepth = 0,
       layerCount = 0, faceCount = 1, levelCount = 33, supercompressionScheme = 0 \<rparr>"

section \<open>Basic facts\<close>

lemma bindE_Inl [simp]: "bindE (Inl e) f = Inl e"
  by (simp add: bindE_def)

lemma bindE_Inr [simp]: "bindE (Inr x) f = f x"
  by (simp add: bindE_def)

lemma bindE_eq_Inr: "bindE m f = Inr y \<longleftrightarrow> (\<exists>x. m = Inr x \<and> f x = Inr y)"
  by (cases m) simp_all

lemma toNumber_small: "n < 2 ^ 53 \<Longrightarrow> toNumber n = n"
proof -
  assume n: "n < 2 ^ 53"
  have "\<not> 2 ^ (53 + k) \<le> n" for k
  proof -
    have "(2 :: nat) ^ 53 \<le> 2 ^ (53 + k)"
      by (rule power_increasing) simp_all
    with n show ?thesis by linarith
  qed
  then have "filter (\<lambda>k. 2 ^ (53 + k) \<le> n) [0 ..< 11] = []"
    by (simp add: filter_empty_conv)
  then show ?thesis
    by (simp add: toNumber_def)
qed

text \<open>The largest field value, \<open>0xFFFFFFFFFFFFFFFF\<close>, is read as \<open>2 ^ 64\<close>.\<close>

lemma toNumber_max: "toNumber (2 ^ 64 - 1) = 2 ^ 64"
proof -
  have "2 ^ (53 + k) \<le> (2 :: nat) ^ 64 - 1" if "k < 11" for k
  proof -
    have "(2 :: nat) ^ (53 + k) \<le> 2 ^ 63"
      by (rule power_increasing) (use that in simp_all)
    then show ?thesis by simp
  qed
  then have "filter (\<lambda>k. 2 ^ (53 + k) \<le> (2 :: nat) ^ 64 - 1) [0 ..< 11] = [0 ..< 11]"
    by (simp add: filter_id_conv)
  then show ?thesis
    by (simp add: toNumber_def Let_def)
qed

text \<open>Two entries with the key \<^verbatim>\<open>a\<close>: the dictionary keeps the second value.\<close>

lemma parseKVD_repeated_key:
  "parseKVD [3, 0, 0, 0, 97, 0, 98, 0, 3, 0, 0, 0, 97, 0, 99, 0] 0 16 = Inr [[97] \<mapsto> [99]]"
  by (simp add: parseKVD_def parseKVDLoop.simps getUint32_def u8view_def assignProperty_def
      protoKey_def)

subsection \<open>The sample file parses\<close>

lemma length_sampleFile: "length (sampleFile vk sc cm) = 160"
  by (simp add: sampleFile_def)

lemma identifier_sampleFile: "u8view (sampleFile vk sc cm) 0 12 = Inr KTX2_IDENTIFIER"
  by (simp add: sampleFile_def u8view_def KTX2_IDENTIFIER_def)

lemma readHeader_sampleFile: "readHeader (sampleFile vk sc cm) = Inr (sampleHeader vk sc)"
  by (simp add: sampleFile_def u8view_def readHeader_def getUint32_def sampleHeader_def)

lemma readIndex_sampleFile: "readIndex (sampleFile vk sc cm) = Inr sampleIndex"
  by (simp add: sampleFile_def u8view_def readIndex_def getUint32_def getBigUint64_def
      toNumber_small sampleIndex_def)

lemma readLevels_sampleFile:
  "readLevels (sampleFile vk sc cm) (sampleHeader vk sc) 80 0
     (iterLevelCount (sampleHeader vk sc)) = Inr [sampleLevel 8, sampleLevel 4]"
proof -
  have "iterLevelCount (sampleHeader vk sc) = Suc (Suc 0)"
    by (simp add: iterLevelCount_def sampleHeader_def)
  then show ?thesis
    by (simp add: sampleFile_def u8view_def getBigUint64_def toNumber_small sampleHeader_def
        sampleLevel_def js_sar_def toInt32_def)
qed

lemma parseDFD_sampleFile: "parseDFD (sampleFile vk sc cm) 128 28 = Inr (sampleDFD cm)"
  by (simp add: sampleFile_def u8view_def parseDFD_def getUint32_def getUint16_def getUint8_def
      sampleDFD_def)

lemma parseContainer_sampleFile:
  "parseContainer (sampleFile vk sc cm) = Inr (sampleParsed vk sc cm)"
  by (simp add: parseContainer_def identifier_sampleFile length_sampleFile
      readHeader_sampleFile readIndex_sampleFile readLevels_sampleFile sampleIndex_def
      parseDFD_sampleFile sampleParsed_def)

section \<open>Short buffers\<close>

text \<open>
  C3 (as amended). A buffer of at least 12 and fewer than 80 bytes fails with \<open>Truncated\<close>
  when its first 12 bytes are the identifier, and with \<open>InvalidIdentifier\<close> otherwise: the
  identifier is compared before the length is checked.
\<close>

theorem parseKTX2_short_buffer:
  "12 \<le> length buf \<Longrightarrow> length buf < 80 \<Longrightarrow>
   fst (parseKTX2 en buf) =
     (if take 12 buf = KTX2_IDENTIFIER then Inl Truncated else Inl InvalidIdentifier)"
  by (simp add: parseKTX2_def parseContainer_def u8view_def)

theorem parseKTX2_short_buffer_witness:
  "12 \<le> length (KTX2_IDENTIFIER @ [0, 0, 0, 0]) \<and>
   length (KTX2_IDENTIFIER @ [0, 0, 0, 0]) < 80 \<and>
   fst (parseKTX2 (sampleEnv False 0 False) (KTX2_IDENTIFIER @ [0, 0, 0, 0])) = Inl Truncated"
  using parseKTX2_short_buffer [of "KTX2_IDENTIFIER @ [0, 0, 0, 0]" "sampleEnv False 0 False"]
  by (simp add: KTX2_IDENTIFIER_def)

text \<open>
  C3 as stated fails: twelve zero bytes are shorter than 80 bytes and are rejected as an
  invalid identifier, and a three-byte buffer is rejected by the 12-byte identifier view
  before any check of the parser runs.
\<close>

theorem short_buffer_not_Truncated:
  "length [0, 0, 0, 0, 0, 0, 0, 0, 0, 0, 0, 0 :: byte] < 80 \<and>
   fst (parseKTX2 (sampleEnv False 0 False) [0, 0, 0, 0, 0, 0, 0, 0, 0, 0, 0, 0]) =
     Inl InvalidIdentifier \<and>
   length [0xAB, 0x4B, 0x54 :: byte] < 80 \<and>
   fst (parseKTX2 (sampleEnv False 0 False) [0xAB, 0x4B, 0x54]) = Inl RangeError"
  by (simp add: parseKTX2_def parseContainer_def u8view_def KTX2_IDENTIFIER_def)

section \<open>Level accessor\<close>

text \<open>
  C10. \<open>getLevelData\<close> returns the attached payload when the level is flagged as
  decompressed and a payload is attached; in every other case it returns the
  \<open>byteLength\<close> bytes at \<open>byteOffset\<close> of the original buffer (for a range that lies in
  the buffer, as the typed-array view requires).
\<close>

theorem getLevelData_cases:
  "(isDecompressed lvl \<and> decompressedData lvl = Some d \<longrightarrow> getLevelData buf lvl = Inr d) \<and>
   (\<not> (isDecompressed lvl \<and> decompressedData lvl \<noteq> None) \<longrightarrow>
      byteOffset lvl + byteLength lvl \<le> length buf \<longrightarrow>
      getLevelData buf lvl = Inr (take (byteLength lvl) (drop (byteOffset lvl) buf)))"
  by (auto simp: getLevelData_def u8view_def split: option.splits bool.splits)

theorem getLevelData_cases_witness:
  "getLevelData (sampleFile 37 0 160)
     ((sampleLevel 8)\<lparr> isDecompressed := True, decompressedData := Some [9, 9] \<rparr>) = Inr [9, 9] \<and>
   byteOffset (sampleLevel 4) + byteLength (sampleLevel 4) \<le> length (sampleFile 37 0 160) \<and>
   getLevelData (sampleFile 37 0 160) (sampleLevel 4) = Inr [1, 2, 3, 4]"
  using getLevelData_cases [of "(sampleLevel 8)\<lparr> isDecompressed := True,
          decompressedData := Some [9, 9] \<rparr>" "[9, 9]" "sampleFile 37 0 160"]
    getLevelData_cases [of "sampleLevel 4" "[]" "sampleFile 37 0 160"]
  by (simp add: sampleLevel_def sampleFile_def)

section \<open>DFD correction of the format descriptor\<close>

lemma formats_block_truthy:
  "vkFormatToWebGPU vk = Some fi \<Longrightarrow> blockWidth fi \<noteq> None \<Longrightarrow> truthy (blockWidth fi)"
  by (auto simp: vkFormatToWebGPU_def formats_def blockFormat_def pixelFormat_def truthy_def
      split: if_splits)

text \<open>
  C6. For a format code that the table resolves to a block-compressed descriptor and a DFD
  whose first-plane byte count is not 0 and differs from the table's bytes per block,
  \<open>applyDFDCorrections\<close> stores the DFD value as bytes per block and keeps the block
  dimensions; for the codes 148 to 154 it sets the format tag from the new size: 8 bytes
  give the RGB tag, or the RGB+1-bit-alpha tag when the colour model is 162, and 16 bytes
  give the RGBA tag. Otherwise the tag is unchanged.
\<close>

theorem applyDFDCorrections_block:
  assumes "vkFormatToWebGPU vk = Some fi" and "blockWidth fi \<noteq> None"
    and "firstPlane d = Some b" and "b \<noteq> 0" and "Some b \<noteq> bytesPerBlock fi"
  shows "\<exists>fi'. applyDFDCorrections (vkFormatToWebGPU vk) (Some d) vk = Some fi' \<and>
           bytesPerBlock fi' = Some b \<and>
           blockWidth fi' = blockWidth fi \<and> blockHeight fi' = blockHeight fi \<and>
           (148 \<le> vk \<and> vk \<le> 154 \<longrightarrow>
              (b = 8 \<longrightarrow> format fi' = (if colorModel d = 162 then ''etc2-rgb8a1unorm''
                                        else ''etc2-rgb8unorm'')) \<and>
              (b = 16 \<longrightarrow> format fi' = ''etc2-rgba8unorm'')) \<and>
           (\<not> (148 \<le> vk \<and> vk \<le> 154 \<and> (b = 8 \<or> b = 16)) \<longrightarrow> format fi' = format fi)"
proof -
  have "truthy (blockWidth fi)"
    using assms(1,2) by (rule formats_block_truthy)
  moreover have "truthy (firstPlane d)"
    using assms(3,4) by (simp add: truthy_def)
  ultimately show ?thesis
    using assms(1,3,5) by (auto simp: applyDFDCorrections_def Let_def)
qed

theorem applyDFDCorrections_block_witness:
  "vkFormatToWebGPU 152 = Some (blockFormat ''etc2-rgb8unorm'' 4 4 8) \<and>
   blockWidth (blockFormat ''etc2-rgb8unorm'' 4 4 8) \<noteq> None \<and>
   firstPlane (sampleDFD 160) = Some 16 \<and>
   Some 16 \<noteq> bytesPerBlock (blockFormat ''etc2-rgb8unorm'' 4 4 8) \<and>
   (\<exists>fi'. applyDFDCorrections (vkFormatToWebGPU 152) (Some (sampleDFD 160)) 152 = Some fi' \<and>
          bytesPerBlock fi' = Some 16 \<and> format fi' = ''etc2-rgba8unorm'')"
proof -
  have t: "vkFormatToWebGPU 152 = Some (blockFormat ''etc2-rgb8unorm'' 4 4 8)"
    by (simp add: vkFormatToWebGPU_def formats_def)
  have w: "blockWidth (blockFormat ''etc2-rgb8unorm'' 4 4 8) \<noteq> None"
    by (simp add: blockFormat_def)
  have p: "firstPlane (sampleDFD 160) = Some 16"
    by (simp add: firstPlane_def sampleDFD_def)
  have n: "Some 16 \<noteq> bytesPerBlock (blockFormat ''etc2-rgb8unorm'' 4 4 8)"
    by (simp add: blockFormat_def)
  from applyDFDCorrections_block [OF t w p _ n]
  obtain fi' where "applyDFDCorrections (vkFormatToWebGPU 152) (Some (sampleDFD 160)) 152 = Some fi'"
    and "bytesPerBlock fi' = Some 16" and "format fi' = ''etc2-rgba8unorm''"
    by auto
  with t w p n show ?thesis by blast
qed

section \<open>Level count and dimensions\<close>

lemma map_update_same: "(\<And>x. f (g x) = f x) \<Longrightarrow> map f (xs[i := g (xs ! i)]) = map f xs"
  by (cases "i < length xs") (simp_all add: map_update list_update_same_conv list_update_beyond)

lemma dims_zstd_update:
  "dims (lvls[i := (lvls ! i)\<lparr> isDecompressed := a, decompressedData := b \<rparr>]) = dims lvls"
  unfolding dims_def by (rule map_update_same) simp

lemma dims_setTranscoded: "dims (setTranscoded lvls i dst fmt) = dims lvls"
  unfolding dims_def setTranscoded_def by (rule map_update_same) simp

lemma zstdLoop_dims: "zstdLoop dec buf i n lvls = (Inr ls', evs) \<Longrightarrow> dims ls' = dims lvls"
proof (induction n arbitrary: i lvls evs)
  case 0
  then show ?case by simp
next
  case (Suc n)
  then show ?case
    by (auto simp: dims_zstd_update split: sum.splits option.splits prod.splits)
qed

lemma rawBasisLoop_dims:
  "rawBasisLoop k f fmt i n lvls = (Inr ls', evs) \<Longrightarrow> dims ls' = dims lvls"
proof (induction n arbitrary: i lvls evs)
  case 0
  then show ?case by simp
next
  case (Suc n)
  then show ?case
    by (auto simp: dims_setTranscoded split: attempt.splits prod.splits)
qed

lemma basisLZLoop_dims:
  "basisLZLoop k f fmt i n lvls = (ls', evs) \<Longrightarrow> dims ls' = dims lvls"
proof (induction n arbitrary: i lvls evs)
  case 0
  then show ?case by simp
next
  case (Suc n)
  then show ?case
    by (auto simp: dims_setTranscoded Let_def split: attempt.splits prod.splits)
qed

lemma zstdPath_dims: "zstdPath en buf lvls = (Inr ls', evs) \<Longrightarrow> dims ls' = dims lvls"
  by (auto simp: zstdPath_def split: option.splits dest: zstdLoop_dims)

lemma rawBasisPath_dims: "rawBasisPath en buf lvls = (Inr ls', evs) \<Longrightarrow> dims ls' = dims lvls"
  by (auto simp: rawBasisPath_def Let_def split: option.splits sum.splits prod.splits if_splits
      dest: rawBasisLoop_dims)

lemma basisLZPath_dims: "basisLZPath en buf d lvls = (Inr ls', evs) \<Longrightarrow> dims ls' = dims lvls"
  by (auto simp: basisLZPath_def Let_def split: option.splits sum.splits prod.splits if_splits
      dest: basisLZLoop_dims)

lemma resolveSupercompression_dims:
  "resolveSupercompression en buf h d lvls = (Inr ls', evs) \<Longrightarrow> dims ls' = dims lvls"
  by (auto simp: resolveSupercompression_def split: if_splits
      dest: zstdPath_dims rawBasisPath_dims basisLZPath_dims)

lemma readLevels_dims:
  "readLevels buf h off i n = Inr ls \<Longrightarrow>
   dims ls = map (\<lambda>j. (max 1 (js_sar (int (pixelWidth h)) (int j)),
                        max 1 (js_sar (int (pixelHeight h)) (int j)))) [i ..< i + n]"
proof (induction n arbitrary: off i ls)
  case 0
  then show ?case by (simp add: dims_def)
next
  case (Suc n)
  from Suc.prems obtain rest x where rest: "readLevels buf h (off + 24) (Suc i) n = Inr rest"
    and ls: "ls = x # rest" and x: "width x = max 1 (js_sar (int (pixelWidth h)) (int i))"
      "height x = max 1 (js_sar (int (pixelHeight h)) (int i))"
    by (auto simp: bindE_eq_Inr)
  from Suc.IH [OF rest] ls x show ?case
    by (simp add: dims_def upt_rec [of i])
qed

lemma parseContainer_levels:
  "parseContainer buf = Inr p \<Longrightarrow>
   readLevels buf (header p) 80 0 (iterLevelCount (header p)) = Inr (levels p)"
  by (auto simp: parseContainer_def bindE_eq_Inr split: if_splits)

lemma parseKTX2_Inr:
  "parseKTX2 en buf = (Inr p, evs) \<Longrightarrow>
   \<exists>p0 ls'. parseContainer buf = Inr p0 \<and>
     resolveSupercompression en buf (header p0) (dfd p0) (levels p0) = (Inr ls', evs) \<and>
     p = p0\<lparr> levels := ls' \<rparr>"
  by (auto simp: parseKTX2_def split: sum.splits prod.splits)

lemma js_sar_small:
  assumes "w < 2 ^ 31" and "i < 32"
  shows "js_sar (int w) (int i) = int (w div 2 ^ i)"
proof -
  have "int w < 2 ^ 31" using assms(1) by (metis of_nat_less_iff of_nat_numeral of_nat_power)
  then have "toInt32 (int w) = int w"
    by (simp add: toInt32_def)
  moreover have "nat (int i mod 32) = i"
    using assms(2) by simp
  ultimately show ?thesis
    by (simp add: js_sar_def zdiv_int)
qed

text \<open>
  What holds of the level dimensions: a successfully parsed buffer has
  \<open>max 1 levelCount\<close> levels, and level \<open>i\<close> has the width and height that the operator
  \<^verbatim>\<open>>>\<close> of the source (\<open>js_sar\<close>) gives, on every path of the resolver. For a dimension
  below \<open>2 ^ 31\<close> and a level index below 32 this is the dimension halved \<open>i\<close> times,
  rounded down.
\<close>

lemma parseKTX2_level_dimensions:
  assumes "parseKTX2 en buf = (Inr p, evs)"
  shows "length (levels p) = max 1 (levelCount (header p)) \<and>
         (\<forall>i < length (levels p).
            width (levels p ! i) = max 1 (js_sar (int (pixelWidth (header p))) (int i)) \<and>
            height (levels p ! i) = max 1 (js_sar (int (pixelHeight (header p))) (int i)) \<and>
            (pixelWidth (header p) < 2 ^ 31 \<and> i < 32 \<longrightarrow>
               width (levels p ! i) = max 1 (int (pixelWidth (header p) div 2 ^ i))) \<and>
            (pixelHeight (header p) < 2 ^ 31 \<and> i < 32 \<longrightarrow>
               height (levels p ! i) = max 1 (int (pixelHeight (header p) div 2 ^ i))))"
proof -
  from assms obtain p0 ls' where p0: "parseContainer buf = Inr p0"
    and res: "resolveSupercompression en buf (header p0) (dfd p0) (levels p0) = (Inr ls', evs)"
    and p: "p = p0\<lparr> levels := ls' \<rparr>"
    by (blast dest: parseKTX2_Inr)
  let ?h = "header p"
  let ?n = "iterLevelCount ?h"
  have h: "header p0 = ?h" and ls: "levels p = ls'"
    using p by simp_all
  have "dims (levels p) = dims (levels p0)"
    using resolveSupercompression_dims [OF res] ls by simp
  also have "\<dots> = map (\<lambda>j. (max 1 (js_sar (int (pixelWidth ?h)) (int j)),
                             max 1 (js_sar (int (pixelHeight ?h)) (int j)))) [0 ..< 0 + ?n]"
    using readLevels_dims [OF parseContainer_levels [OF p0]] h by simp
  finally have d: "dims (levels p) =
      map (\<lambda>j. (max 1 (js_sar (int (pixelWidth ?h)) (int j)),
                 max 1 (js_sar (int (pixelHeight ?h)) (int j)))) [0 ..< ?n]"
    by simp
  have len: "length (levels p) = ?n"
    using arg_cong [OF d, of length] by (simp add: dims_def)
  have nth: "(width (levels p ! i), height (levels p ! i)) =
      (max 1 (js_sar (int (pixelWidth ?h)) (int i)), max 1 (js_sar (int (pixelHeight ?h)) (int i)))"
    if "i < length (levels p)" for i
  proof -
    have "dims (levels p) ! i = (width (levels p ! i), height (levels p ! i))"
      using that by (simp add: dims_def)
    moreover have "dims (levels p) ! i =
      (max 1 (js_sar (int (pixelWidth ?h)) (int i)), max 1 (js_sar (int (pixelHeight ?h)) (int i)))"
      using that len by (simp add: d)
    ultimately show ?thesis by simp
  qed
  have "?n = max 1 (levelCount ?h)"
    by (simp add: iterLevelCount_def)
  with len nth show ?thesis
    by (auto simp: js_sar_small)
qed

lemma parseKTX2_level_dimensions_sample:
  "parseKTX2 (sampleEnv False 0 False) (sampleFile 37 0 160) = (Inr (sampleParsed 37 0 160), []) \<and>
   length (levels (sampleParsed 37 0 160)) = 2 \<and>
   width (levels (sampleParsed 37 0 160) ! 1) = 4 \<and>
   height (levels (sampleParsed 37 0 160) ! 1) = 4"
proof -
  have e: "parseKTX2 (sampleEnv False 0 False) (sampleFile 37 0 160) = (Inr (sampleParsed 37 0 160), [])"
    by (simp add: parseKTX2_def parseContainer_sampleFile resolveSupercompression_def
        sampleParsed_def sampleHeader_def SUPERCOMPRESSION_ZSTD_def SUPERCOMPRESSION_NONE_def
        SUPERCOMPRESSION_BASIS_LZ_def SUPERCOMPRESSION_ZLIB_def)
  from parseKTX2_level_dimensions [OF e] e show ?thesis
    by (simp add: sampleParsed_def sampleLevel_def)
qed

subsection \<open>A width of 2 ^ 31 or more\<close>

lemma length_wideFile: "length wideFile = 160"
  by (simp add: wideFile_def)

lemma identifier_wideFile: "u8view wideFile 0 12 = Inr KTX2_IDENTIFIER"
  by (simp add: wideFile_def u8view_def KTX2_IDENTIFIER_def)

lemma readHeader_wideFile: "readHeader wideFile = Inr wideHeader"
  by (simp add: wideFile_def u8view_def readHeader_def getUint32_def wideHeader_def)

lemma readIndex_wideFile: "readIndex wideFile = Inr sampleIndex"
  by (simp add: wideFile_def u8view_def readIndex_def getUint32_def getBigUint64_def
      toNumber_small sampleIndex_def)

lemma js_sar_wide:
  "js_sar 2147483656 0 = - 2147483640" "js_sar 2147483656 1 = - 1073741820"
  "js_sar 8 0 = 8" "js_sar 8 1 = 4"
  by (simp_all add: js_sar_def toInt32_def)

lemma readLevels_wideFile:
  "readLevels wideFile wideHeader 80 0 (iterLevelCount wideHeader) =
     Inr [wideLevel 1 8, wideLevel 1 4]"
proof -
  have "iterLevelCount wideHeader = Suc (Suc 0)"
    by (simp add: iterLevelCount_def wideHeader_def)
  moreover have "pixelWidth wideHeader = 2147483656" "pixelHeight wideHeader = 8"
    by (simp_all add: wideHeader_def)
  ultimately show ?thesis
    by (simp add: wideFile_def u8view_def getBigUint64_def toNumber_small wideLevel_def
        js_sar_wide)
qed

lemma parseDFD_wideFile: "parseDFD wideFile 128 28 = Inr (sampleDFD 160)"
  by (simp add: wideFile_def u8view_def parseDFD_def getUint32_def getUint16_def getUint8_def
      sampleDFD_def)

lemma parseContainer_wideFile: "parseContainer wideFile = Inr wideParsed"
  by (simp add: parseContainer_def identifier_wideFile length_wideFile readHeader_wideFile
      readIndex_wideFile readLevels_wideFile sampleIndex_def parseDFD_wideFile wideParsed_def)

text \<open>
  C2 fails for a width of \<open>2 ^ 31\<close> or more. The header field is an unsigned 32-bit
  integer, and \<open>wideFile\<close>, whose \<open>pixelWidth\<close> is \<open>0x80000008 = 2147483656\<close>, is parsed
  successfully. The rule of C2 gives level 0 the width 2147483656 and level 1 the width
  1073741828; \<open>parseKTX2\<close> stores the width 1 in both, because \<^verbatim>\<open>>>\<close> reads its operand as
  the signed 32-bit integer -2147483640. The heights, from \<open>pixelHeight = 8\<close>, are 8 and 4
  as the rule says.
\<close>

theorem level_width_signed_shift:
  "parseKTX2 (sampleEnv False 0 False) wideFile = (Inr wideParsed, []) \<and>
   pixelWidth (header wideParsed) = 2147483656 \<and>
   pixelHeight (header wideParsed) = 8 \<and>
   dims (levels wideParsed) = [(1, 8), (1, 4)] \<and>
   max 1 (int (pixelWidth (header wideParsed)) div 2 ^ 0) = 2147483656 \<and>
   max 1 (int (pixelWidth (header wideParsed)) div 2 ^ 1) = 1073741828"
  by (simp add: parseKTX2_def parseContainer_wideFile resolveSupercompression_def
      wideParsed_def wideHeader_def wideLevel_def dims_def SUPERCOMPRESSION_ZSTD_def
      SUPERCOMPRESSION_NONE_def SUPERCOMPRESSION_BASIS_LZ_def SUPERCOMPRESSION_ZLIB_def)

subsection \<open>A level index of 32 or more\<close>

lemma getBigUint64_in_range:
  "off + 8 \<le> length buf \<Longrightarrow> \<exists>v. getBigUint64 buf off = Inr v"
  by (simp add: getBigUint64_def u8view_def)

lemma readLevels_in_range:
  "off + 24 * n \<le> length buf \<Longrightarrow> \<exists>ls. readLevels buf h off i n = Inr ls"
proof (induction n arbitrary: off i)
  case 0
  then show ?case by simp
next
  case (Suc n)
  from Suc.prems obtain a b c where
    "getBigUint64 buf off = Inr a" "getBigUint64 buf (off + 8) = Inr b"
    "getBigUint64 buf (off + 16) = Inr c"
    using getBigUint64_in_range [of off buf] getBigUint64_in_range [of "off + 8" buf]
      getBigUint64_in_range [of "off + 16" buf]
    by auto
  moreover from Suc.prems have "off + 24 + 24 * n \<le> length buf"
    by simp
  from Suc.IH [OF this] obtain rest where "readLevels buf h (off + 24) (Suc i) n = Inr rest"
    by blast
  ultimately show ?case
    by simp
qed

lemma length_deepFile: "length deepFile = 872"
  by (simp add: deepFile_def deepHeader_def)

lemma identifier_deepFile: "u8view deepFile 0 12 = Inr KTX2_IDENTIFIER"
  by (simp add: deepFile_def deepHeader_def u8view_def KTX2_IDENTIFIER_def)

lemma readHeader_deepFile: "readHeader deepFile = Inr deepHeaderParsed"
  by (simp add: deepFile_def deepHeader_def u8view_def readHeader_def getUint32_def
      deepHeaderParsed_def)

lemma readIndex_deepFile:
  "readIndex deepFile =
     Inr \<lparr> dfdByteOffset = 0, dfdByteLength = 0, kvdByteOffset = 0, kvdByteLength = 0,
           sgdByteOffset = 0, sgdByteLength = 0 \<rparr>"
  by (simp add: deepFile_def deepHeader_def u8view_def readIndex_def getUint32_def
      getBigUint64_def toNumber_small)

lemma parseKTX2_deepFile:
  "\<exists>p. parseKTX2 (sampleEnv False 0 False) deepFile = (Inr p, []) \<and> header p = deepHeaderParsed"
proof -
  have "iterLevelCount deepHeaderParsed = 33"
    by (simp add: iterLevelCount_def deepHeaderParsed_def)
  then obtain ls where ls: "readLevels deepFile deepHeaderParsed 80 0 (iterLevelCount deepHeaderParsed) = Inr ls"
    using readLevels_in_range [of 80 33 deepFile deepHeaderParsed 0]
    by (auto simp: length_deepFile)
  have "vkFormat deepHeaderParsed = 37" "supercompressionScheme deepHeaderParsed = 0"
    by (simp_all add: deepHeaderParsed_def)
  then show ?thesis
    by (simp add: parseKTX2_def parseContainer_def identifier_deepFile length_deepFile
        readHeader_deepFile readIndex_deepFile ls resolveSupercompression_def
        SUPERCOMPRESSION_ZSTD_def SUPERCOMPRESSION_NONE_def SUPERCOMPRESSION_BASIS_LZ_def
        SUPERCOMPRESSION_ZLIB_def)
qed

text \<open>
  The same operator takes the level index modulo 32: in a file of 33 levels of an 8 by 8
  texture, levels 3 to 31 have the width 1 and level 32 has the width 8 again.
\<close>

lemma level_32_repeats_base_size:
  "\<exists>p. parseKTX2 (sampleEnv False 0 False) deepFile = (Inr p, []) \<and>
       pixelWidth (header p) = 8 \<and> length (levels p) = 33 \<and>
       width (levels p ! 3) = 1 \<and> width (levels p ! 31) = 1 \<and> width (levels p ! 32) = 8"
proof -
  obtain p where p: "parseKTX2 (sampleEnv False 0 False) deepFile = (Inr p, [])"
    and h: "header p = deepHeaderParsed"
    using parseKTX2_deepFile by blast
  have w: "pixelWidth (header p) = 8" and c: "levelCount (header p) = 33"
    using h by (simp_all add: deepHeaderParsed_def)
  have s: "js_sar 8 3 = 1" "js_sar 8 31 = 0" "js_sar 8 32 = 8"
    by (simp_all add: js_sar_def toInt32_def)
  from parseKTX2_level_dimensions [OF p] have len: "length (levels p) = 33"
    and nth: "\<And>i. i < 33 \<Longrightarrow> width (levels p ! i) = max 1 (js_sar 8 (int i))"
    using w c by auto
  from nth [of 3] nth [of 31] nth [of 32] s have
    "width (levels p ! 3) = 1" "width (levels p ! 31) = 1" "width (levels p ! 32) = 8"
    by simp_all
  with p w len show ?thesis
    by blast
qed


section \<open>Zstandard levels\<close>

lemma sizeWarning_update:
  "i \<noteq> j \<Longrightarrow> sizeWarning dec buf (lvls[i := x]) j = sizeWarning dec buf lvls j"
  by (simp add: sizeWarning_def split: option.splits)

lemma zstdLoop_ok:
  assumes "i + n \<le> length lvls"
    and "\<forall>j. i \<le> j \<and> j < i + n \<longrightarrow> zstdOutput dec buf (lvls ! j) \<noteq> None"
  shows "\<exists>ls'. zstdLoop dec buf i n lvls =
           (Inr ls', concat (map (sizeWarning dec buf lvls) [i ..< i + n])) \<and>
         length ls' = length lvls \<and>
         (\<forall>j < length lvls. ls' ! j =
            (if i \<le> j \<and> j < i + n
             then (lvls ! j)\<lparr> isDecompressed := True,
                               decompressedData := zstdOutput dec buf (lvls ! j) \<rparr>
             else lvls ! j))"
  using assms
proof (induction n arbitrary: i lvls)
  case 0
  then show ?case by auto
next
  case (Suc n)
  let ?l = "lvls ! i"
  from Suc.prems(2) obtain d where d: "zstdOutput dec buf ?l = Some d"
    by force
  then obtain c where c: "u8view buf (byteOffset ?l) (byteLength ?l) = Inr c" "dec c = Some d"
    by (auto simp: zstdOutput_def split: sum.splits)
  let ?lvls = "lvls[i := ?l\<lparr> isDecompressed := True, decompressedData := Some d \<rparr>]"
  have il: "i < length lvls"
    using Suc.prems(1) by simp
  have same: "?lvls ! j = lvls ! j" if "Suc i \<le> j" for j
    using that by simp
  have "Suc i + n \<le> length ?lvls"
    using Suc.prems(1) by simp
  moreover have "\<forall>j. Suc i \<le> j \<and> j < Suc i + n \<longrightarrow> zstdOutput dec buf (?lvls ! j) \<noteq> None"
    using Suc.prems(2) same by simp
  ultimately obtain ls' where
    run: "zstdLoop dec buf (Suc i) n ?lvls =
            (Inr ls', concat (map (sizeWarning dec buf ?lvls) [Suc i ..< Suc i + n]))"
    and len: "length ls' = length ?lvls"
    and nth: "\<forall>j < length ?lvls. ls' ! j =
            (if Suc i \<le> j \<and> j < Suc i + n
             then (?lvls ! j)\<lparr> isDecompressed := True,
                                decompressedData := zstdOutput dec buf (?lvls ! j) \<rparr>
             else ?lvls ! j)"
    using Suc.IH [of "Suc i" ?lvls] by blast
  have ws: "map (sizeWarning dec buf ?lvls) [Suc i ..< Suc i + n] =
            map (sizeWarning dec buf lvls) [Suc i ..< Suc i + n]"
    by (rule map_cong) (auto simp: sizeWarning_update)
  have w0: "sizeWarning dec buf lvls i =
      (if length d \<noteq> uncompressedByteLength ?l
       then [SizeMismatchWarning i (length d) (uncompressedByteLength ?l)] else [])"
    by (simp add: sizeWarning_def d)
  from run have run': "zstdLoop dec buf (Suc i) n ?lvls =
            (Inr ls', concat (map (sizeWarning dec buf lvls) [Suc i ..< Suc i + n]))"
    by (simp only: ws)
  have "zstdLoop dec buf i (Suc n) lvls =
          (Inr ls', concat (map (sizeWarning dec buf lvls) [i ..< i + Suc n]))"
    using c run' by (simp add: w0 upt_rec [of i] del: upt_Suc)
  moreover have "length ls' = length lvls"
    using len by simp
  moreover have "\<forall>j < length lvls. ls' ! j =
            (if i \<le> j \<and> j < i + Suc n
             then (lvls ! j)\<lparr> isDecompressed := True,
                               decompressedData := zstdOutput dec buf (lvls ! j) \<rparr>
             else lvls ! j)"
  proof (intro allI impI)
    fix j assume j: "j < length lvls"
    show "ls' ! j = (if i \<le> j \<and> j < i + Suc n
             then (lvls ! j)\<lparr> isDecompressed := True,
                               decompressedData := zstdOutput dec buf (lvls ! j) \<rparr>
             else lvls ! j)"
    proof (cases "j = i")
      case True
      then show ?thesis using nth j il d by simp
    next
      case False
      then show ?thesis using nth j by auto
    qed
  qed
  ultimately show ?case by blast
qed

text \<open>
  C4. Under the Zstandard scheme, when every level's byte range lies in the buffer and the
  decompressor returns for it, the parse succeeds, and each level carries exactly what the
  decompressor returned, flagged as decompressed; where the length of that output differs
  from the declared uncompressed length, the size-mismatch warning for the level is
  emitted with the actual and the declared length.
\<close>

theorem zstd_size_mismatch_tolerated:
  assumes "parseContainer buf = Inr p"
    and "supercompressionScheme (header p) = SUPERCOMPRESSION_ZSTD"
    and "fzstd en = Some dec"
    and "\<forall>i < length (levels p). zstdOutput dec buf (levels p ! i) \<noteq> None"
  shows "\<exists>p' evs. parseKTX2 en buf = (Inr p', evs) \<and>
           length (levels p') = length (levels p) \<and>
           (\<forall>i < length (levels p). \<forall>d. zstdOutput dec buf (levels p ! i) = Some d \<longrightarrow>
              isDecompressed (levels p' ! i) \<and>
              decompressedData (levels p' ! i) = Some d \<and>
              (length d \<noteq> uncompressedByteLength (levels p ! i) \<longrightarrow>
                 SizeMismatchWarning i (length d) (uncompressedByteLength (levels p ! i))
                   \<in> set evs))"
proof -
  let ?lv = "levels p"
  have "0 + length ?lv \<le> length ?lv" by simp
  moreover have "\<forall>j. 0 \<le> j \<and> j < 0 + length ?lv \<longrightarrow> zstdOutput dec buf (?lv ! j) \<noteq> None"
    using assms(4) by simp
  ultimately obtain ls' where
    run: "zstdLoop dec buf 0 (length ?lv) ?lv =
            (Inr ls', concat (map (sizeWarning dec buf ?lv) [0 ..< 0 + length ?lv]))"
    and len: "length ls' = length ?lv"
    and nth: "\<forall>j < length ?lv. ls' ! j =
            (if 0 \<le> j \<and> j < 0 + length ?lv
             then (?lv ! j)\<lparr> isDecompressed := True,
                              decompressedData := zstdOutput dec buf (?lv ! j) \<rparr>
             else ?lv ! j)"
    using zstdLoop_ok [of 0 "length ?lv" ?lv dec buf] by blast
  let ?evs = "concat (map (sizeWarning dec buf ?lv) [0 ..< length ?lv])"
  have "parseKTX2 en buf = (Inr (p\<lparr> levels := ls' \<rparr>), ?evs)"
    using assms(1-3) run
    by (simp add: parseKTX2_def resolveSupercompression_def zstdPath_def)
  moreover have "length (levels (p\<lparr> levels := ls' \<rparr>)) = length ?lv"
    using len by simp
  moreover have "\<forall>i < length ?lv. \<forall>d. zstdOutput dec buf (?lv ! i) = Some d \<longrightarrow>
              isDecompressed (levels (p\<lparr> levels := ls' \<rparr>) ! i) \<and>
              decompressedData (levels (p\<lparr> levels := ls' \<rparr>) ! i) = Some d \<and>
              (length d \<noteq> uncompressedByteLength (?lv ! i) \<longrightarrow>
                 SizeMismatchWarning i (length d) (uncompressedByteLength (?lv ! i)) \<in> set ?evs)"
  proof (intro allI impI)
    fix i d assume i: "i < length ?lv" and d: "zstdOutput dec buf (?lv ! i) = Some d"
    have "ls' ! i = (?lv ! i)\<lparr> isDecompressed := True, decompressedData := Some d \<rparr>"
      using nth i d by simp
    moreover have "SizeMismatchWarning i (length d) (uncompressedByteLength (?lv ! i)) \<in> set ?evs"
      if "length d \<noteq> uncompressedByteLength (?lv ! i)"
    proof -
      have "SizeMismatchWarning i (length d) (uncompressedByteLength (?lv ! i))
              \<in> set (sizeWarning dec buf ?lv i)"
        using that d by (simp add: sizeWarning_def)
      then show ?thesis using i by auto
    qed
    ultimately show "isDecompressed (levels (p\<lparr> levels := ls' \<rparr>) ! i) \<and>
              decompressedData (levels (p\<lparr> levels := ls' \<rparr>) ! i) = Some d \<and>
              (length d \<noteq> uncompressedByteLength (?lv ! i) \<longrightarrow>
                 SizeMismatchWarning i (length d) (uncompressedByteLength (?lv ! i)) \<in> set ?evs)"
      by simp
  qed
  ultimately show ?thesis by blast
qed

lemma zstdOutput_sample: "zstdOutput (\<lambda>c. Some (c @ c @ c)) (sampleFile vk sc cm) (sampleLevel w) =
    Some [1, 2, 3, 4, 1, 2, 3, 4, 1, 2, 3, 4]"
  by (simp add: zstdOutput_def u8view_def sampleLevel_def sampleFile_def)

theorem zstd_size_mismatch_tolerated_witness:
  "parseContainer (sampleFile 37 2 160) = Inr (sampleParsed 37 2 160) \<and>
   supercompressionScheme (header (sampleParsed 37 2 160)) = SUPERCOMPRESSION_ZSTD \<and>
   zstdOutput (\<lambda>c. Some (c @ c @ c)) (sampleFile 37 2 160) (levels (sampleParsed 37 2 160) ! 0) =
     Some [1, 2, 3, 4, 1, 2, 3, 4, 1, 2, 3, 4] \<and>
   uncompressedByteLength (levels (sampleParsed 37 2 160) ! 0) = 8 \<and>
   (\<exists>p' evs. parseKTX2 (sampleEnv False 0 False) (sampleFile 37 2 160) = (Inr p', evs) \<and>
      isDecompressed (levels p' ! 0) \<and>
      decompressedData (levels p' ! 0) = Some [1, 2, 3, 4, 1, 2, 3, 4, 1, 2, 3, 4] \<and>
      SizeMismatchWarning 0 12 8 \<in> set evs)"
proof -
  let ?dec = "\<lambda>c :: byte list. Some (c @ c @ c)"
  let ?d = "[1, 2, 3, 4, 1, 2, 3, 4, 1, 2, 3, 4] :: byte list"
  have a: "parseContainer (sampleFile 37 2 160) = Inr (sampleParsed 37 2 160)"
    by (rule parseContainer_sampleFile)
  have b: "supercompressionScheme (header (sampleParsed 37 2 160)) = SUPERCOMPRESSION_ZSTD"
    by (simp add: sampleParsed_def sampleHeader_def SUPERCOMPRESSION_ZSTD_def)
  have c: "fzstd (sampleEnv False 0 False) = Some ?dec"
    by (simp add: sampleEnv_def)
  have l: "levels (sampleParsed 37 2 160) = [sampleLevel 8, sampleLevel 4]"
    by (simp add: sampleParsed_def)
  have d: "\<forall>i < length (levels (sampleParsed 37 2 160)).
             zstdOutput ?dec (sampleFile 37 2 160) (levels (sampleParsed 37 2 160) ! i) \<noteq> None"
    unfolding l by (simp add: zstdOutput_sample nth_Cons')
  have o: "zstdOutput ?dec (sampleFile 37 2 160) (levels (sampleParsed 37 2 160) ! 0) = Some ?d"
    unfolding l by (simp add: zstdOutput_sample)
  have u: "uncompressedByteLength (levels (sampleParsed 37 2 160) ! 0) = 8"
    unfolding l by (simp add: sampleLevel_def)
  have z: "0 < length (levels (sampleParsed 37 2 160))"
    unfolding l by simp
  from zstd_size_mismatch_tolerated [OF a b c d] obtain p' evs where
    r: "parseKTX2 (sampleEnv False 0 False) (sampleFile 37 2 160) = (Inr p', evs)"
    and q: "\<forall>i < length (levels (sampleParsed 37 2 160)). \<forall>d.
        zstdOutput ?dec (sampleFile 37 2 160) (levels (sampleParsed 37 2 160) ! i) = Some d \<longrightarrow>
              isDecompressed (levels p' ! i) \<and>
              decompressedData (levels p' ! i) = Some d \<and>
              (length d \<noteq> uncompressedByteLength (levels (sampleParsed 37 2 160) ! i) \<longrightarrow>
                 SizeMismatchWarning i (length d)
                   (uncompressedByteLength (levels (sampleParsed 37 2 160) ! i)) \<in> set evs)"
    by blast
  have ld: "length ?d = 12"
    by simp
  from q [rule_format, OF z o] have k:
    "isDecompressed (levels p' ! 0) \<and> decompressedData (levels p' ! 0) = Some ?d \<and>
      (length ?d \<noteq> uncompressedByteLength (levels (sampleParsed 37 2 160) ! 0) \<longrightarrow>
         SizeMismatchWarning 0 (length ?d)
           (uncompressedByteLength (levels (sampleParsed 37 2 160) ! 0)) \<in> set evs)"
    by blast
  have "isDecompressed (levels p' ! 0) \<and> decompressedData (levels p' ! 0) = Some ?d \<and>
      SizeMismatchWarning 0 12 8 \<in> set evs"
    using k unfolding u ld by simp
  with a b o u r show ?thesis by blast
qed

section \<open>Row padding\<close>

lemma alignUp256_bounds:
  "rs \<le> alignUp256 rs \<and> alignUp256 rs mod 256 = 0 \<and> alignUp256 rs < rs + 256"
proof -
  have "(rs + 255) div 256 * 256 + (rs + 255) mod 256 = rs + 255"
    by (rule div_mult_mod_eq)
  moreover have "(rs + 255) mod 256 < 256"
    by simp
  ultimately show ?thesis
    unfolding alignUp256_def by (simp; linarith)
qed

lemma alignUp256_fixed: "alignUp256 rs = rs \<longleftrightarrow> rs mod 256 = 0"
proof
  assume "alignUp256 rs = rs"
  then show "rs mod 256 = 0"
    using alignUp256_bounds [of rs] by simp
next
  assume "rs mod 256 = 0"
  then obtain q where "rs = 256 * q"
    by (auto simp: mod_eq_0_iff_dvd)
  then show "alignUp256 rs = rs"
    by (simp add: alignUp256_def)
qed

lemma cell_in_grid:
  fixes y m j al :: nat
  assumes "y < m" and "j < al"
  shows "y * al + j < m * al"
proof -
  have "y * al + j < Suc y * al"
    using assms(2) by simp
  also have "\<dots> \<le> m * al"
    using assms(1) by (intro mult_le_mono1) simp
  finally show ?thesis .
qed

lemma typedSet_nth:
  assumes "typedSet dst sub off = Inr dst1" and "k < length dst"
  shows "length dst1 = length dst \<and>
         dst1 ! k = (if off \<le> k \<and> k < off + length sub then sub ! (k - off) else dst ! k)"
proof -
  from assms(1) have fit: "off + length sub \<le> length dst"
    and d: "dst1 = take off dst @ sub @ drop (off + length sub) dst"
    by (auto simp: typedSet_def split: if_splits)
  show ?thesis
    using fit assms(2) unfolding d by (auto simp: nth_append min_def)
qed

lemma subarray_row:
  "length (subarray src (y * rs) (y * rs + rs)) \<le> rs \<and>
   (j < length (subarray src (y * rs) (y * rs + rs)) \<longleftrightarrow> j < rs \<and> y * rs + j < length src) \<and>
   (j < length (subarray src (y * rs) (y * rs + rs)) \<longrightarrow>
      subarray src (y * rs) (y * rs + rs) ! j = src ! (y * rs + j))"
  by (auto simp: subarray_def)

lemma padRowsLoop_layout:
  assumes "rs \<le> al" and "length dst = al * (y + n)"
  shows "\<exists>dst'. padRowsLoop src rs al y n dst = Inr dst' \<and> length dst' = length dst \<and>
           (\<forall>y' j. y' < y + n \<longrightarrow> j < al \<longrightarrow>
              dst' ! (y' * al + j) =
                (if y \<le> y' \<and> j < rs \<and> y' * rs + j < length src
                 then src ! (y' * rs + j) else dst ! (y' * al + j)))"
  using assms
proof (induction n arbitrary: y dst)
  case 0
  then show ?case by simp
next
  case (Suc n)
  let ?sub = "subarray src (y * rs) (y * rs + rs)"
  have sl: "length ?sub \<le> al"
    using subarray_row [of src y rs 0] Suc.prems(1) by simp
  have "y * al + al \<le> al * (y + Suc n)"
    by (simp add: algebra_simps)
  then have fit: "y * al + length ?sub \<le> length dst"
    using sl Suc.prems(2) by linarith
  define dst1 where "dst1 = take (y * al) dst @ ?sub @ drop (y * al + length ?sub) dst"
  have set: "typedSet dst ?sub (y * al) = Inr dst1"
    using fit by (simp add: typedSet_def dst1_def)
  have len1: "length dst1 = al * (Suc y + n)"
    using fit Suc.prems(2) by (simp add: dst1_def)
  from Suc.IH [OF Suc.prems(1) len1] obtain dst' where
    run: "padRowsLoop src rs al (Suc y) n dst1 = Inr dst'"
    and len: "length dst' = length dst1"
    and cells: "\<forall>y' j. y' < Suc y + n \<longrightarrow> j < al \<longrightarrow>
              dst' ! (y' * al + j) =
                (if Suc y \<le> y' \<and> j < rs \<and> y' * rs + j < length src
                 then src ! (y' * rs + j) else dst1 ! (y' * al + j))"
    by blast
  have step: "padRowsLoop src rs al y (Suc n) dst = Inr dst'"
    using set run by (simp add: Let_def)
  have "dst' ! (y' * al + j) =
          (if y \<le> y' \<and> j < rs \<and> y' * rs + j < length src
           then src ! (y' * rs + j) else dst ! (y' * al + j))"
    if y': "y' < y + Suc n" and j: "j < al" for y' j
  proof -
    have k: "y' * al + j < length dst"
      using cell_in_grid [OF y' j] Suc.prems(2) by (simp add: mult.commute)
    have one: "dst1 ! (y' * al + j) =
        (if y * al \<le> y' * al + j \<and> y' * al + j < y * al + length ?sub
         then ?sub ! (y' * al + j - y * al) else dst ! (y' * al + j))"
      using typedSet_nth [OF set k] by simp
    have two: "dst' ! (y' * al + j) =
                (if Suc y \<le> y' \<and> j < rs \<and> y' * rs + j < length src
                 then src ! (y' * rs + j) else dst1 ! (y' * al + j))"
      using cells y' j by simp
    consider (below) "y' < y" | (here) "y' = y" | (above) "y < y'"
      by linarith
    then show ?thesis
    proof cases
      case below
      then have "y' * al + j < y * al"
        using cell_in_grid [OF below j] by simp
      then show ?thesis
        using one two below by simp
    next
      case here
      show ?thesis
        using one two subarray_row [of src y rs j] unfolding here by auto
    next
      case above
      have "Suc y * al \<le> y' * al"
        using above by (intro mult_le_mono1) simp
      then have "y * al + length ?sub \<le> y' * al + j"
        using sl by simp
      then show ?thesis
        using one two above by simp
    qed
  qed
  with step len len1 Suc.prems(2) show ?case
    by simp
qed

text \<open>
  C9. \<open>padRows\<close> uses the row stride \<open>width * bytesPerPixel\<close> rounded up to the nearest
  multiple of 256. When the stride is already a multiple of 256 it returns the input
  buffer unchanged. Otherwise it returns a buffer of aligned stride times height bytes in
  which byte \<open>j\<close> of row \<open>y\<close> of the source stands at offset \<open>y * aligned + j\<close> and every
  other byte is 0; the copy never fails.
\<close>

theorem padRows_layout:
  "w * bpp \<le> alignUp256 (w * bpp) \<and> alignUp256 (w * bpp) mod 256 = 0 \<and>
   alignUp256 (w * bpp) < w * bpp + 256 \<and>
   ((w * bpp) mod 256 = 0 \<longrightarrow>
      padRows src w h bpp = Inr \<lparr> data = src, bytesPerRow = w * bpp \<rparr>) \<and>
   ((w * bpp) mod 256 \<noteq> 0 \<longrightarrow>
      (\<exists>dst. padRows src w h bpp = Inr \<lparr> data = dst, bytesPerRow = alignUp256 (w * bpp) \<rparr> \<and>
         length dst = alignUp256 (w * bpp) * h \<and>
         (\<forall>y < h. \<forall>j < alignUp256 (w * bpp).
            dst ! (y * alignUp256 (w * bpp) + j) =
              (if j < w * bpp \<and> y * (w * bpp) + j < length src
               then src ! (y * (w * bpp) + j) else 0))))"
proof -
  let ?rs = "w * bpp"
  let ?al = "alignUp256 ?rs"
  have b: "?rs \<le> ?al \<and> ?al mod 256 = 0 \<and> ?al < ?rs + 256"
    by (rule alignUp256_bounds)
  have same: "padRows src w h bpp = Inr \<lparr> data = src, bytesPerRow = ?rs \<rparr>" if "?rs mod 256 = 0"
    using that alignUp256_fixed [of ?rs] by (simp add: padRows_def Let_def)
  have pad: "\<exists>dst. padRows src w h bpp = Inr \<lparr> data = dst, bytesPerRow = ?al \<rparr> \<and>
         length dst = ?al * h \<and>
         (\<forall>y < h. \<forall>j < ?al. dst ! (y * ?al + j) =
              (if j < ?rs \<and> y * ?rs + j < length src then src ! (y * ?rs + j) else 0))"
    if "?rs mod 256 \<noteq> 0"
  proof -
    have ne: "?al \<noteq> ?rs"
      using that alignUp256_fixed [of ?rs] by simp
    have "length (replicate (?al * h) (0 :: byte)) = ?al * (0 + h)"
      by simp
    with b obtain dst where run: "padRowsLoop src ?rs ?al 0 h (replicate (?al * h) 0) = Inr dst"
      and len: "length dst = length (replicate (?al * h) (0 :: byte))"
      and cells: "\<forall>y' j. y' < 0 + h \<longrightarrow> j < ?al \<longrightarrow>
              dst ! (y' * ?al + j) =
                (if 0 \<le> y' \<and> j < ?rs \<and> y' * ?rs + j < length src
                 then src ! (y' * ?rs + j) else replicate (?al * h) 0 ! (y' * ?al + j))"
      using padRowsLoop_layout [of ?rs ?al "replicate (?al * h) 0" 0 h src] by blast
    have "dst ! (y * ?al + j) =
              (if j < ?rs \<and> y * ?rs + j < length src then src ! (y * ?rs + j) else 0)"
      if "y < h" and "j < ?al" for y j
    proof -
      have "y * ?al + j < ?al * h"
        using cell_in_grid [OF that] by (simp add: mult.commute)
      then show ?thesis
        using cells that by simp
    qed
    moreover have "padRows src w h bpp = Inr \<lparr> data = dst, bytesPerRow = ?al \<rparr>"
      using ne run by (simp add: padRows_def Let_def)
    ultimately show ?thesis
      using len by auto
  qed
  from b same pad show ?thesis
    by blast
qed


text \<open>
  The example of the specification: width 3, height 2, 4 bytes per pixel give 512 bytes
  with the two 12-byte rows at offsets 0 and 256.
\<close>

theorem padRows_layout_witness:
  "(3 * 4) mod 256 \<noteq> (0 :: nat) \<and>
   (\<exists>dst. padRows sampleRows 3 2 4 = Inr \<lparr> data = dst, bytesPerRow = 256 \<rparr> \<and>
      length dst = 512 \<and>
      take 12 dst = [1, 2, 3, 4, 5, 6, 7, 8, 9, 10, 11, 12] \<and>
      take 12 (drop 256 dst) = [13, 14, 15, 16, 17, 18, 19, 20, 21, 22, 23, 24])"
proof -
  have al: "alignUp256 12 = 256"
    by (simp add: alignUp256_def)
  have ls: "length sampleRows = 24"
    by (simp add: sampleRows_def)
  have ne: "(3 * 4) mod 256 \<noteq> (0 :: nat)"
    by simp
  from padRows_layout [of 3 4 sampleRows 2] ne obtain dst where
    p: "padRows sampleRows 3 2 4 = Inr \<lparr> data = dst, bytesPerRow = alignUp256 (3 * 4) \<rparr>"
    and len: "length dst = alignUp256 (3 * 4) * 2"
    and cells: "\<forall>y < 2. \<forall>j < alignUp256 (3 * 4).
            dst ! (y * alignUp256 (3 * 4) + j) =
              (if j < 3 * 4 \<and> y * (3 * 4) + j < length sampleRows
               then sampleRows ! (y * (3 * 4) + j) else 0)"
    by blast
  have c0: "dst ! j = sampleRows ! j" if "j < 12" for j
    using cells [rule_format, of 0 j] that by (simp add: al ls)
  have c1: "dst ! (256 + j) = sampleRows ! (12 + j)" if "j < 12" for j
    using cells [rule_format, of 1 j] that by (simp add: al ls)
  have l: "length dst = 512"
    using len by (simp add: al)
  have "take 12 dst = take 12 sampleRows"
    by (rule nth_equalityI) (simp_all add: l ls c0)
  moreover have "take 12 (drop 256 dst) = drop 12 sampleRows"
    by (rule nth_equalityI) (simp_all add: l ls c1)
  moreover have "take 12 sampleRows = [1, 2, 3, 4, 5, 6, 7, 8, 9, 10, 11, 12]"
    and "drop 12 sampleRows = [13, 14, 15, 16, 17, 18, 19, 20, 21, 22, 23, 24]"
    by (simp_all add: sampleRows_def)
  ultimately show ?thesis
    using p l ne by (simp add: al)
qed

section \<open>Float downconversion\<close>

lemma toInt32_id: "- (2 ^ 31) \<le> k \<Longrightarrow> k < 2 ^ 31 \<Longrightarrow> toInt32 k = k"
  by (simp add: toInt32_def)

lemma toInt32_high: "2 ^ 31 \<le> k \<Longrightarrow> k < 2 ^ 32 \<Longrightarrow> toInt32 k = k - 2 ^ 32"
proof -
  assume a: "2 ^ 31 \<le> k" "k < 2 ^ 32"
  have "(k + 2 ^ 31) mod 2 ^ 32 = (k + 2 ^ 31 - 2 ^ 32) mod 2 ^ 32"
    by (metis minus_mod_self2)
  also have "\<dots> = k + 2 ^ 31 - 2 ^ 32"
    using a by (intro mod_pos_pos_trivial) simp_all
  finally show ?thesis
    by (simp add: toInt32_def)
qed

lemma and_low_bits: "k AND (2 ^ n - 1) = k mod 2 ^ n" for k :: int
  by (simp flip: mask_eq_exp_minus_1 take_bit_eq_mask add: take_bit_eq_mod)

lemma or_shifted:
  fixes b c :: int
  assumes "0 \<le> b" and "b < 2 ^ n"
  shows "c * 2 ^ n OR b = c * 2 ^ n + b"
proof -
  have "take_bit n b OR push_bit n c = take_bit n b + push_bit n c"
    using concat_bit_eq [of n b c] by (simp add: concat_bit_def)
  then show ?thesis
    using assms by (simp add: take_bit_int_eq_self push_bit_eq_mult ac_simps)
qed

lemma take_bit_toInt32: "take_bit 32 (toInt32 a) = take_bit 32 a"
  by (simp add: toInt32_def take_bit_eq_mod mod_diff_left_eq)

lemma take_bit_low_toInt32: "k \<le> 32 \<Longrightarrow> take_bit k (toInt32 a) = take_bit k a"
  by (metis take_bit_toInt32 take_bit_take_bit min.absorb1)

lemma js_and_low_bits:
  assumes "k < 32"
  shows "js_and a (2 ^ k - 1) = take_bit k a"
proof -
  have "(2 :: int) ^ k \<le> 2 ^ 31"
    using assms by (intro power_increasing) simp_all
  moreover have "(0 :: int) < 2 ^ k"
    by simp
  ultimately have "toInt32 (2 ^ k - 1) = 2 ^ k - 1"
    by (intro toInt32_id) linarith+
  then show ?thesis
    using assms by (simp add: js_and_def and_low_bits take_bit_low_toInt32 flip: take_bit_eq_mod)
qed

lemma js_sar_field:
  assumes "n < 32" and "k < 32" and "n + k \<le> 32"
  shows "js_and (js_sar x (int n)) (2 ^ k - 1) = (x div 2 ^ n) mod 2 ^ k"
proof -
  have "js_and (js_sar x (int n)) (2 ^ k - 1) = take_bit k (drop_bit n (toInt32 x))"
    using assms(1,2) by (simp add: js_and_low_bits js_sar_def drop_bit_eq_div)
  also have "\<dots> = drop_bit n (take_bit (n + k) (toInt32 x))"
    by (simp add: drop_bit_take_bit)
  also have "\<dots> = drop_bit n (take_bit (n + k) x)"
    using assms(3) by (simp add: take_bit_low_toInt32)
  also have "\<dots> = take_bit k (drop_bit n x)"
    by (simp add: drop_bit_take_bit)
  finally show ?thesis
    by (simp add: take_bit_eq_mod drop_bit_eq_div)
qed

lemma sign_field: "js_and (js_sar x 31) 1 = (x div 2 ^ 31) mod 2"
  using js_sar_field [of 31 1 x] by simp

lemma exp_field: "js_and (js_sar x 23) 255 = (x div 2 ^ 23) mod 256"
  using js_sar_field [of 23 8 x] by simp

lemma mant_field: "js_and (js_sar x 13) 1023 = (x div 2 ^ 13) mod 1024"
  using js_sar_field [of 13 10 x] by simp


lemma js_shl_small:
  assumes "0 \<le> a" and "a * 2 ^ n < 2 ^ 31" and "n < 32"
  shows "js_shl a (int n) = a * 2 ^ n"
proof -
  have "a * 1 \<le> a * 2 ^ n"
    using assms(1) by (intro mult_left_mono) simp_all
  then have "a < 2 ^ 31"
    using assms(2) by simp
  then have "toInt32 a = a"
    using assms(1) by (intro toInt32_id) simp_all
  moreover have "0 \<le> a * 2 ^ n"
    using assms(1) by simp
  then have "toInt32 (a * 2 ^ n) = a * 2 ^ n"
    using assms(2) by (intro toInt32_id) simp_all
  ultimately show ?thesis
    using assms(3) by (simp add: js_shl_def)
qed

lemma js_or_fields:
  assumes "0 \<le> b" and "b < 2 ^ n" and "0 \<le> c" and "c * 2 ^ n + b < 2 ^ 31"
  shows "js_or (c * 2 ^ n) b = c * 2 ^ n + b"
proof -
  have c: "0 \<le> c * 2 ^ n"
    using assms(3) by simp
  have "toInt32 (c * 2 ^ n) = c * 2 ^ n"
    using c assms(1,4) by (intro toInt32_id) linarith+
  moreover have "toInt32 b = b"
    using c assms(1,4) by (intro toInt32_id) linarith+
  ultimately show ?thesis
    using assms(1,2) by (simp add: js_or_def or_shifted)
qed

lemma js_sar_small_int:
  assumes "0 \<le> a" and "a < 2 ^ 31" and "0 \<le> k" and "k < 32"
  shows "js_sar a k = a div 2 ^ nat k"
  using assms by (simp add: js_sar_def toInt32_id)

lemma float32ToFloat16_eq: "float32ToFloat16 v = truncateToHalf v"
proof -
  define x where "x = uint v"
  define s where "s = x div 2 ^ 31"
  define e where "e = (x div 2 ^ 23) mod 256"
  define m where "m = x mod 2 ^ 23"
  define t where "t = m div 2 ^ 13"
  have x: "0 \<le> x" "x < 2 ^ 32"
    using uint_lt2p [of v] by (simp_all add: x_def)
  have s: "s = 0 \<or> s = 1"
    using x unfolding s_def by simp linarith
  then have sm: "(x div 2 ^ 31) mod 2 = s"
    unfolding s_def by auto
  have e: "0 \<le> e" "e < 256"
    by (simp_all add: e_def)
  have "drop_bit 13 (take_bit 23 x) = take_bit 10 (drop_bit 13 x)"
    by (simp add: drop_bit_take_bit)
  then have tm: "(x div 2 ^ 13) mod 1024 = t"
    by (simp add: t_def m_def take_bit_eq_mod drop_bit_eq_div)
  have t: "0 \<le> t" "t < 1024"
    using tm [symmetric] by simp_all
  have m: "0 \<le> m"
    by (simp add: m_def)
  have F: "float32ToFloat16 v =
      (if e - 112 \<le> 0 then
         (if e - 112 < - 10 then js_shl s 15
          else js_or (js_or (js_shl s 15) (js_shl 0 10)) (js_sar (js_or t 1024) (1 - (e - 112))))
       else if e - 112 \<ge> 31 then js_or (js_or (js_shl s 15) (js_shl 31 10)) 0
       else js_or (js_or (js_shl s 15) (js_shl (e - 112) 10)) t)"
    unfolding float32ToFloat16_def Let_def x_def [symmetric] sign_field exp_field mant_field
      sm tm e_def [symmetric] by (rule refl)
  have T: "truncateToHalf v =
      (if e < 102 then s * 2 ^ 15
       else if e < 113 then s * 2 ^ 15 + (2 ^ 23 + m) div 2 ^ nat (126 - e)
       else if e < 143 then s * 2 ^ 15 + (e - 112) * 2 ^ 10 + t
       else s * 2 ^ 15 + 31 * 2 ^ 10)"
    unfolding truncateToHalf_def Let_def x_def [symmetric] s_def [symmetric] e_def [symmetric]
      m_def [symmetric] t_def [symmetric] by (rule refl)
  have sh: "js_shl s 15 = s * 32768"
    using s js_shl_small [of s 15] by auto
  have hi: "js_or (s * 32768) b = s * 32768 + b" if "0 \<le> b" "b < 32768" for b
    using s that js_or_fields [of b 15 s] by auto
  consider (zero) "e < 102" | (sub) "102 \<le> e" "e < 113" | (norm) "113 \<le> e" "e < 143"
    | (inf) "143 \<le> e"
    by linarith
  then show ?thesis
  proof cases
    case zero
    then show ?thesis
      unfolding F T by (simp add: sh)
  next
    case sub
    define k where "k = nat (113 - e)"
    have k: "1 - (e - 112) = int k" "126 - e = int (13 + k)" "k < 32"
      using sub by (simp_all add: k_def)
    have z: "js_shl 0 10 = 0"
      by (simp add: js_shl_def toInt32_def)
    have "js_or (1 * 2 ^ 10) t = 1 * 2 ^ 10 + t"
      using t by (intro js_or_fields) simp_all
    then have o: "js_or t 1024 = 1024 + t"
      by (simp add: js_or_def or.commute)
    have r: "js_sar (1024 + t) (int k) = (1024 + t) div 2 ^ k"
      using t k(3) by (simp add: js_sar_small_int)
    have rb: "0 \<le> (1024 + t) div 2 ^ k" "(1024 + t) div 2 ^ k < 32768"
    proof -
      show "0 \<le> (1024 + t) div 2 ^ k"
        using t by (simp add: pos_imp_zdiv_nonneg_iff)
      have "(1024 + t) div 2 ^ k \<le> 1024 + t"
        using t by (intro int_div_le_self) simp_all
      then show "(1024 + t) div 2 ^ k < 32768"
        using t by simp
    qed
    have "(2 ^ 23 + m) div 2 ^ 13 = 1024 + t"
      by (simp add: t_def)
    then have q: "(2 ^ 23 + m) div 2 ^ (13 + k) = (1024 + t) div 2 ^ k"
      by (simp add: power_add zdiv_zmult2_eq)
    have "js_or (js_or (js_shl s 15) (js_shl 0 10)) (js_sar (js_or t 1024) (int k)) =
          s * 32768 + (1024 + t) div 2 ^ k"
      unfolding sh z o r using hi [of 0] hi [OF rb] by simp
    then have "float32ToFloat16 v = s * 32768 + (1024 + t) div 2 ^ k"
      using sub unfolding F k(1) by simp
    moreover have "truncateToHalf v = s * 32768 + (2 ^ 23 + m) div 2 ^ (13 + k)"
      using sub unfolding T k(2) nat_int by simp
    ultimately show ?thesis
      unfolding q by simp
  next
    case norm
    have ex: "js_shl (e - 112) 10 = (e - 112) * 1024"
      using norm js_shl_small [of "e - 112" 10] by simp
    have a: "js_or (s * 32768) ((e - 112) * 1024) = s * 32768 + (e - 112) * 1024"
      using norm by (intro hi) simp_all
    have "js_or ((s * 32 + (e - 112)) * 2 ^ 10) t = (s * 32 + (e - 112)) * 2 ^ 10 + t"
      using norm s t by (intro js_or_fields) auto
    then have b: "js_or (s * 32768 + (e - 112) * 1024) t = s * 32768 + (e - 112) * 1024 + t"
      by (simp add: algebra_simps)
    have "js_or (js_or (js_shl s 15) (js_shl (e - 112) 10)) t = s * 32768 + (e - 112) * 1024 + t"
      unfolding sh ex a b by (rule refl)
    then show ?thesis
      using norm unfolding F T by simp
  next
    case inf
    have ex: "js_shl 31 10 = 31744"
      by (simp add: js_shl_def toInt32_def)
    have a: "js_or (s * 32768) 31744 = s * 32768 + 31744"
      by (intro hi) simp_all
    have b: "js_or (s * 32768 + 31744) 0 = s * 32768 + 31744"
      using s by (auto simp: js_or_def toInt32_def)
    have "js_or (js_or (js_shl s 15) (js_shl 31 10)) 0 = s * 32768 + 31744"
      unfolding sh ex a b by (rule refl)
    then show ?thesis
      using inf unfolding F T by simp
  qed
qed


text \<open>
  C8 (as amended). For every 32-bit input, \<open>float32ToFloat16\<close> returns the truncated
  encoding \<open>truncateToHalf\<close>: the mantissa is cut to its top ten bits and never rounded
  up, exponents from 143 on give the signed infinity, exponents below 102 a signed zero.
  \<open>convertRGBA32FtoRGBA16F\<close> applies it to each 32-bit channel in turn and stores the
  results as 16-bit values.
\<close>

theorem float32ToFloat16_truncates:
  "float32ToFloat16 v = truncateToHalf v \<and>
   convertRGBA32FtoRGBA16F b off w h =
     (if off mod 4 \<noteq> 0 \<or> off + 4 * (w * h * 4) > length b then Inl RangeError
      else Inr (concat (map (\<lambda>i. u16bytes (truncateToHalf (f32bits b (off + 4 * i))))
                          [0 ..< w * h * 4])))"
  by (simp add: float32ToFloat16_eq convertRGBA32FtoRGBA16F_def Let_def)

lemma f32bits_samplePixel:
  "f32bits samplePixel 0 = 0x3F800000" "f32bits samplePixel 4 = 0x3F801800"
  "f32bits samplePixel 8 = 0xC0000000" "f32bits samplePixel 12 = 0x7FC00000"
  by (simp_all add: f32bits_def samplePixel_def)

lemma truncateToHalf_samples:
  "truncateToHalf 0x3F800000 = 0x3C00" "truncateToHalf 0x3F801800 = 0x3C00"
  "truncateToHalf 0xC0000000 = 0xC000" "truncateToHalf 0x7FC00000 = 0x7C00"
  by (simp_all add: truncateToHalf_def)

theorem float32ToFloat16_truncates_witness:
  "float32ToFloat16 0x3F801800 = 0x3C00 \<and>
   \<not> (0 mod 4 \<noteq> (0 :: nat) \<or> 0 + 4 * (1 * 1 * 4) > length samplePixel) \<and>
   convertRGBA32FtoRGBA16F samplePixel 0 1 1 = Inr [0, 0x3C, 0, 0x3C, 0, 0xC0, 0, 0x7C]"
proof -
  have l: "length samplePixel = 16"
    by (simp add: samplePixel_def)
  have u: "[0 ..< 1 * 1 * 4] = [0, 1, 2, 3 :: nat]"
    by (simp add: upt_rec)
  have "float32ToFloat16 0x3F801800 = truncateToHalf 0x3F801800"
    and "convertRGBA32FtoRGBA16F samplePixel 0 1 1 =
      (if 0 mod 4 \<noteq> (0 :: nat) \<or> 0 + 4 * (1 * 1 * 4) > length samplePixel then Inl RangeError
       else Inr (concat (map (\<lambda>i. u16bytes (truncateToHalf (f32bits samplePixel (0 + 4 * i))))
                           [0 ..< 1 * 1 * 4])))"
    using float32ToFloat16_truncates [of "0x3F801800" samplePixel 0 1 1] by blast+
  then show ?thesis
    unfolding u by (simp add: l f32bits_samplePixel truncateToHalf_samples u16bytes_def)
qed

text \<open>
  C8 as stated fails. The input \<open>0x3F801800\<close> is 4099/4096; the function returns
  \<open>0x3C00\<close>, which is 1, although the half-precision value \<open>0x3C01\<close> = 1025/1024 is
  nearer to the input.
\<close>

theorem float32ToFloat16_not_nearest:
  "float32ToFloat16 0x3F801800 = 0x3C00 \<and>
   single_value 0x3F801800 = Some (4099 / 4096) \<and>
   half_value 0x3C00 = Some 1 \<and>
   half_value 0x3C01 = Some (1025 / 1024) \<and>
   \<bar>1025 / 1024 - 4099 / 4096 :: rat\<bar> < \<bar>1 - 4099 / 4096\<bar>"
  by (simp add: float32ToFloat16_def js_and_def js_sar_def js_or_def js_shl_def toInt32_def
      single_value_def half_value_def pow2_def)

section \<open>Basis-family paths\<close>

lemma transcodeLevel_sample:
  "transcodeLevel k (sampleHandle good throws) i fmt =
     (if i < good then Decoded [9, 9, 9, 9] else if throws then Threw else NoPayload,
      [QuerySize k i fmt, Transcode k i fmt])"
  by (simp add: transcodeLevel_def sampleHandle_def)

lemma rawBasisPath_sample_throw:
  "rawBasisPath (sampleEnv False 1 True) buf [sampleLevel 8, sampleLevel 4] =
     (Inl BackendThrew,
      [Opened BasisFile, StartTranscoding, QuerySize BasisFile 0 13, Transcode BasisFile 0 13,
       QuerySize BasisFile 1 13, Transcode BasisFile 1 13])"
proof -
  have "min (length [sampleLevel 8, sampleLevel 4]) 4 = Suc (Suc 0)"
    by simp
  moreover have "startTranscoding (sampleHandle 1 True) = Some True" "getNumLevels (sampleHandle 1 True) = Some 4"
    by (simp_all add: sampleHandle_def)
  ultimately show ?thesis
    by (simp add: rawBasisPath_def sampleEnv_def transcodeLevel_sample setTranscoded_def
        del: length_Cons)
qed

lemma basisLZPath_sample_throw:
  "basisLZPath (sampleEnv False 1 True) buf d [sampleLevel 8, sampleLevel 4] =
     (Inr [decodedLevel 8, sampleLevel 4],
      [Opened BasisFile, StartTranscoding, QuerySize BasisFile 0 13, Transcode BasisFile 0 13,
       QuerySize BasisFile 1 13, Transcode BasisFile 1 13, Closed, Deleted])"
proof -
  have "min (length [sampleLevel 8, sampleLevel 4]) 4 = Suc (Suc 0)"
    by simp
  moreover have "startTranscoding (sampleHandle 1 True) = Some True" "getNumLevels (sampleHandle 1 True) = Some 4"
    "getNumImages (sampleHandle 1 True) = Some (Some 1)"
    by (simp_all add: sampleHandle_def)
  ultimately show ?thesis
    by (simp add: basisLZPath_def sampleEnv_def transcodeLevel_sample setTranscoded_def
        getBasisTargetFormatForGPU_def decodedLevel_def Let_def del: length_Cons)
qed

lemma resolve_raw: "resolveSupercompression en buf (sampleHeader 0 0) d lvls = rawBasisPath en buf lvls"
  by (simp add: resolveSupercompression_def sampleHeader_def SUPERCOMPRESSION_ZSTD_def
      SUPERCOMPRESSION_NONE_def)

lemma resolve_lz: "resolveSupercompression en buf (sampleHeader vk 1) d lvls = basisLZPath en buf d lvls"
  by (simp add: resolveSupercompression_def sampleHeader_def SUPERCOMPRESSION_ZSTD_def
      SUPERCOMPRESSION_NONE_def SUPERCOMPRESSION_BASIS_LZ_def)

text \<open>
  C1 fails on the raw Basis path. The sample backend transcodes level 0 and throws on
  level 1. Under scheme None with format code 0 the exception leaves \<open>parseKTX2\<close>: no
  parsed texture is returned. Under BasisLZ, whose loop catches the exception, the same
  backend gives the truncated mip chain that C1 describes: level 0 decoded, level 1
  untouched.
\<close>

theorem raw_basis_exception_aborts_parse:
  "fst (parseKTX2 (sampleEnv False 1 True) (sampleFile 0 0 160)) = Inl BackendThrew \<and>
   fst (parseKTX2 (sampleEnv False 1 True) (sampleFile 0 1 160)) =
     Inr ((sampleParsed 0 1 160)\<lparr> levels := [decodedLevel 8, sampleLevel 4] \<rparr>)"
  by (simp add: parseKTX2_def parseContainer_sampleFile sampleParsed_def resolve_raw resolve_lz
      rawBasisPath_sample_throw basisLZPath_sample_throw del: One_nat_def)

text \<open>
  C7 fails on the raw Basis path. With the same backend, the calls on the file object end
  with the transcode call that throws: neither \<^verbatim>\<open>close\<close> nor \<^verbatim>\<open>delete\<close> is called. Under
  BasisLZ both are called.
\<close>

theorem raw_basis_exception_leaks_handle:
  "snd (parseKTX2 (sampleEnv False 1 True) (sampleFile 0 0 160)) =
     [Opened BasisFile, StartTranscoding, QuerySize BasisFile 0 13, Transcode BasisFile 0 13,
      QuerySize BasisFile 1 13, Transcode BasisFile 1 13] \<and>
   snd (parseKTX2 (sampleEnv False 1 True) (sampleFile 0 1 160)) =
     [Opened BasisFile, StartTranscoding, QuerySize BasisFile 0 13, Transcode BasisFile 0 13,
      QuerySize BasisFile 1 13, Transcode BasisFile 1 13, Closed, Deleted]"
  by (simp add: parseKTX2_def parseContainer_sampleFile sampleParsed_def resolve_raw resolve_lz
      rawBasisPath_sample_throw basisLZPath_sample_throw del: One_nat_def)











subsection \<open>Truncation and release in general\<close>

lemma decodedCount_le: "decodedCount k f fmt i n \<le> n"
  by (induction n arbitrary: i) (auto split: attempt.splits)

lemma Decoded_nonempty:
  "transcodeLevel k f i fmt = (Decoded dst, evs) \<Longrightarrow> dst \<noteq> []"
  by (auto simp: transcodeLevel_def Let_def split: option.splits if_splits prod.splits)

text \<open>
  Both loops decode the levels up to the first one that fails and leave the others as
  they were; the raw Basis loop returns provided that failing level did not throw.
\<close>

lemma basisLZLoop_truncates:
  assumes "i + n \<le> length lvls"
  shows "\<exists>ls' evs. basisLZLoop k f fmt i n lvls = (ls', evs) \<and> length ls' = length lvls \<and>
           (\<forall>j < length lvls. ls' ! j =
              (if i \<le> j \<and> j < i + decodedCount k f (if k = KTX2File then 13 else fmt) i n
               then transcodedLevel k f (if k = KTX2File then 13 else fmt) j (lvls ! j)
               else lvls ! j))"
  using assms
proof (induction n arbitrary: i lvls)
  case 0
  then show ?case by auto
next
  case (Suc n)
  let ?a = "if k = KTX2File then 13 else fmt"
  obtain att es where t: "transcodeLevel k f i ?a = (att, es)"
    by (cases "transcodeLevel k f i ?a")
  show ?case
  proof (cases att)
    case (Decoded dst)
    let ?lvls = "setTranscoded lvls i dst ?a"
    have il: "i < length lvls"
      using Suc.prems by simp
    have "Suc i + n \<le> length ?lvls"
      using Suc.prems by (simp add: setTranscoded_def)
    from Suc.IH [OF this] obtain ls' es' where
      run: "basisLZLoop k f fmt (Suc i) n ?lvls = (ls', es')"
      and len: "length ls' = length ?lvls"
      and nth: "\<forall>j < length ?lvls. ls' ! j =
              (if Suc i \<le> j \<and> j < Suc i + decodedCount k f ?a (Suc i) n
               then transcodedLevel k f ?a j (?lvls ! j) else ?lvls ! j)"
      by blast
    have cnt: "decodedCount k f ?a i (Suc n) = Suc (decodedCount k f ?a (Suc i) n)"
      using t Decoded by simp
    have here: "?lvls ! i = transcodedLevel k f ?a i (lvls ! i)"
      using il t Decoded by (simp add: setTranscoded_def transcodedLevel_def payloadOf_def)
    have other: "?lvls ! j = lvls ! j" if "j \<noteq> i" for j
      using that by (simp add: setTranscoded_def)
    have "basisLZLoop k f fmt i (Suc n) lvls = (ls', es @ es')"
      using t Decoded run by (simp add: Let_def)
    moreover have "length ls' = length lvls"
      using len by (simp add: setTranscoded_def)
    moreover have "ls' ! j =
              (if i \<le> j \<and> j < i + decodedCount k f ?a i (Suc n)
               then transcodedLevel k f ?a j (lvls ! j) else lvls ! j)"
      if "j < length lvls" for j
    proof (cases "j = i")
      case True
      then show ?thesis
        using nth il here unfolding cnt by (simp add: setTranscoded_def del: decodedCount.simps)
    next
      case False
      then show ?thesis
        using nth that other [OF False] unfolding cnt
        by (auto simp: setTranscoded_def simp del: decodedCount.simps)
    qed
    ultimately show ?thesis by blast
  next
    case NoPayload
    then show ?thesis using t by (auto simp: Let_def)
  next
    case Threw
    then show ?thesis using t by (auto simp: Let_def)
  qed
qed

lemma rawBasisLoop_truncates:
  assumes "i + n \<le> length lvls"
    and "decodedCount k f fmt i n < n \<longrightarrow>
           fst (transcodeLevel k f (i + decodedCount k f fmt i n) fmt) \<noteq> Threw"
  shows "\<exists>ls' evs. rawBasisLoop k f fmt i n lvls = (Inr ls', evs) \<and> length ls' = length lvls \<and>
           (\<forall>j < length lvls. ls' ! j =
              (if i \<le> j \<and> j < i + decodedCount k f fmt i n
               then transcodedLevel k f fmt j (lvls ! j) else lvls ! j))"
  using assms
proof (induction n arbitrary: i lvls)
  case 0
  then show ?case by auto
next
  case (Suc n)
  obtain att es where t: "transcodeLevel k f i fmt = (att, es)"
    by (cases "transcodeLevel k f i fmt")
  show ?case
  proof (cases att)
    case (Decoded dst)
    let ?lvls = "setTranscoded lvls i dst fmt"
    have il: "i < length lvls"
      using Suc.prems(1) by simp
    have cnt: "decodedCount k f fmt i (Suc n) = Suc (decodedCount k f fmt (Suc i) n)"
      using t Decoded by simp
    have "Suc i + n \<le> length ?lvls"
      using Suc.prems(1) by (simp add: setTranscoded_def)
    moreover have "decodedCount k f fmt (Suc i) n < n \<longrightarrow>
           fst (transcodeLevel k f (Suc i + decodedCount k f fmt (Suc i) n) fmt) \<noteq> Threw"
      using Suc.prems(2) unfolding cnt by simp
    ultimately obtain ls' es' where
      run: "rawBasisLoop k f fmt (Suc i) n ?lvls = (Inr ls', es')"
      and len: "length ls' = length ?lvls"
      and nth: "\<forall>j < length ?lvls. ls' ! j =
              (if Suc i \<le> j \<and> j < Suc i + decodedCount k f fmt (Suc i) n
               then transcodedLevel k f fmt j (?lvls ! j) else ?lvls ! j)"
      using Suc.IH [of "Suc i" ?lvls] by blast
    have here: "?lvls ! i = transcodedLevel k f fmt i (lvls ! i)"
      using il t Decoded by (simp add: setTranscoded_def transcodedLevel_def payloadOf_def)
    have other: "?lvls ! j = lvls ! j" if "j \<noteq> i" for j
      using that by (simp add: setTranscoded_def)
    have "rawBasisLoop k f fmt i (Suc n) lvls = (Inr ls', es @ es')"
      using t Decoded run by simp
    moreover have "length ls' = length lvls"
      using len by (simp add: setTranscoded_def)
    moreover have "ls' ! j =
              (if i \<le> j \<and> j < i + decodedCount k f fmt i (Suc n)
               then transcodedLevel k f fmt j (lvls ! j) else lvls ! j)"
      if "j < length lvls" for j
    proof (cases "j = i")
      case True
      then show ?thesis
        using nth il here unfolding cnt by (simp add: setTranscoded_def del: decodedCount.simps)
    next
      case False
      then show ?thesis
        using nth that other [OF False] unfolding cnt
        by (auto simp: setTranscoded_def simp del: decodedCount.simps)
    qed
    ultimately show ?thesis by blast
  next
    case NoPayload
    then show ?thesis using t by auto
  next
    case Threw
    then have "decodedCount k f fmt i (Suc n) = 0"
      using t by simp
    with Suc.prems(2) t Threw show ?thesis by simp
  qed
qed

lemma rawBasisLoop_Inl:
  "rawBasisLoop k f fmt i n lvls = (Inl e, evs) \<Longrightarrow> e = BackendThrew"
  by (induction n arbitrary: i lvls evs) (auto split: attempt.splits prod.splits)

text \<open>
  What holds of C7: both paths release the handle they opened unless an exception of the
  backend left \<open>parseKTX2\<close>. Under BasisLZ no exception of a size query or of a transcode
  call does that, only one of \<^verbatim>\<open>startTranscoding\<close> or \<^verbatim>\<open>getNumImages\<close>, which are called
  outside any \<^verbatim>\<open>try\<close>.
\<close>

lemma basisLZPath_releases:
  "basisLZPath en buf d lvls = (r, evs) \<Longrightarrow> Opened k \<in> set evs \<Longrightarrow> r \<noteq> Inl BackendThrew \<Longrightarrow>
   \<exists>pre. evs = pre @ [Closed, Deleted]"
  by (auto simp: basisLZPath_def Let_def split: option.splits sum.splits if_splits prod.splits)

lemma basisLZPath_releases_after_start:
  "basisLZPath en buf d lvls = (r, evs) \<Longrightarrow> backendCall ev \<noteq> None \<Longrightarrow> ev \<in> set evs \<Longrightarrow>
   \<exists>pre. evs = pre @ [Closed, Deleted]"
  by (auto simp: basisLZPath_def Let_def split: option.splits sum.splits if_splits prod.splits)

lemma basisLZPath_start_throws:
  "basisModule en = Some m \<Longrightarrow> newKTX2File m = None \<Longrightarrow> newBasisFile m buf = Some f \<Longrightarrow>
   startTranscoding f = None \<or> startTranscoding f = Some True \<and> getNumImages f = Some None \<Longrightarrow>
   basisLZPath en buf d lvls = (Inl BackendThrew, [Opened BasisFile, StartTranscoding])"
  by (auto simp: basisLZPath_def Let_def)

lemma rawBasisPath_releases:
  "rawBasisPath en buf lvls = (r, evs) \<Longrightarrow> Opened k \<in> set evs \<Longrightarrow> r \<noteq> Inl BackendThrew \<Longrightarrow>
   \<exists>pre. evs = pre @ [Closed, Deleted]"
  by (auto simp: rawBasisPath_def Let_def split: option.splits sum.splits if_splits prod.splits
      dest: rawBasisLoop_Inl)

lemma basisLZPath_level_failure_not_fatal:
  "basisLZPath en buf d lvls = (r, evs) \<Longrightarrow> backendCall ev \<noteq> None \<Longrightarrow> ev \<in> set evs \<Longrightarrow>
   \<exists>ls'. r = Inr ls'"
  by (auto simp: basisLZPath_def Let_def split: option.splits sum.splits if_splits prod.splits)

lemma decodedCount_payload:
  "j < decodedCount k f fmt i n \<Longrightarrow> \<exists>dst. payloadOf k f fmt (i + j) = Some dst \<and> dst \<noteq> []"
proof (induction n arbitrary: i j)
  case 0
  then show ?case by simp
next
  case (Suc n)
  obtain att es where t: "transcodeLevel k f i fmt = (att, es)"
    by (cases "transcodeLevel k f i fmt")
  from Suc.prems t obtain dst where d: "att = Decoded dst"
    by (cases att) simp_all
  show ?case
  proof (cases j)
    case 0
    then show ?thesis
      using t d Decoded_nonempty [of k f i fmt dst es] by (simp add: payloadOf_def)
  next
    case (Suc j')
    with Suc.prems t d have "j' < decodedCount k f fmt (Suc i) n"
      by simp
    from Suc.IH [OF this] Suc show ?thesis
      by simp
  qed
qed

lemma transcodedLevel_decodedNonEmpty:
  "payloadOf k f fmt j = Some dst \<Longrightarrow> dst \<noteq> [] \<Longrightarrow> decodedNonEmpty (transcodedLevel k f fmt j l)"
  by (simp add: decodedNonEmpty_def transcodedLevel_def)

lemma prefix_shape:
  assumes "c = decodedCount k f fmt 0 n" and "n \<le> length lvls"
    and "length ls' = length lvls"
    and "\<forall>j < length lvls. ls' ! j =
              (if 0 \<le> j \<and> j < 0 + decodedCount k f fmt 0 n
               then transcodedLevel k f fmt j (lvls ! j) else lvls ! j)"
  shows "c \<le> length lvls \<and> length ls' = length lvls \<and>
         (\<forall>j < length lvls. if j < c then decodedNonEmpty (ls' ! j) else ls' ! j = lvls ! j)"
proof -
  have "c \<le> length lvls"
    using assms(1,2) decodedCount_le [of k f fmt 0 n] by simp
  moreover have "if j < c then decodedNonEmpty (ls' ! j) else ls' ! j = lvls ! j"
    if "j < length lvls" for j
  proof (cases "j < c")
    case True
    then obtain dst where "payloadOf k f fmt (0 + j) = Some dst" "dst \<noteq> []"
      using decodedCount_payload [of j k f fmt 0 n] assms(1) by blast
    then show ?thesis
      using True that assms(1,4) by (simp add: transcodedLevel_decodedNonEmpty)
  next
    case False
    then show ?thesis
      using that assms(1,4) by simp
  qed
  ultimately show ?thesis
    using assms(3) by blast
qed

lemma basisLZPath_prefix:
  assumes "basisLZPath en buf d lvls = (Inr ls', evs)"
  shows "\<exists>c \<le> length lvls. length ls' = length lvls \<and>
           (\<forall>j < length lvls. if j < c then decodedNonEmpty (ls' ! j) else ls' ! j = lvls ! j)"
proof -
  from assms have "\<exists>k f tl es. basisLZLoop k f 13 0 (min (length lvls) tl) lvls = (ls', es)"
    by (fastforce simp: basisLZPath_def Let_def getBasisTargetFormatForGPU_def
        split: option.splits sum.splits if_splits prod.splits)
  then obtain k f n where n: "n \<le> length lvls"
    and run: "fst (basisLZLoop k f 13 0 n lvls) = ls'"
    by (metis fst_conv min.cobounded1)
  have a: "(if k = KTX2File then 13 else 13) = (13 :: nat)"
    by simp
  from n have "0 + n \<le> length lvls"
    by simp
  from basisLZLoop_truncates [OF this, of k f 13] run
  have "length ls' = length lvls" and
    "\<forall>j < length lvls. ls' ! j =
              (if 0 \<le> j \<and> j < 0 + decodedCount k f 13 0 n
               then transcodedLevel k f 13 j (lvls ! j) else lvls ! j)"
    unfolding a by auto
  from prefix_shape [OF refl n this] show ?thesis
    by blast
qed

lemma rawBasisLoop_Inr_no_throw:
  "rawBasisLoop k f fmt i n lvls = (Inr ls', evs) \<Longrightarrow>
   decodedCount k f fmt i n < n \<longrightarrow>
     fst (transcodeLevel k f (i + decodedCount k f fmt i n) fmt) \<noteq> Threw"
proof (induction n arbitrary: i lvls evs)
  case 0
  then show ?case by simp
next
  case (Suc n)
  obtain att es where t: "transcodeLevel k f i fmt = (att, es)"
    by (cases "transcodeLevel k f i fmt")
  show ?case
  proof (cases att)
    case (Decoded dst)
    obtain r es' where r: "rawBasisLoop k f fmt (Suc i) n (setTranscoded lvls i dst fmt) = (r, es')"
      by (cases "rawBasisLoop k f fmt (Suc i) n (setTranscoded lvls i dst fmt)")
    with Suc.prems t Decoded have "r = Inr ls'"
      by simp
    with r have "rawBasisLoop k f fmt (Suc i) n (setTranscoded lvls i dst fmt) = (Inr ls', es')"
      by simp
    from Suc.IH [OF this] t Decoded show ?thesis
      by simp
  next
    case NoPayload
    then show ?thesis using t by simp
  next
    case Threw
    then show ?thesis using t Suc.prems by simp
  qed
qed

lemma rawBasisPath_prefix:
  assumes "rawBasisPath en buf lvls = (Inr ls', evs)"
  shows "\<exists>c \<le> length lvls. length ls' = length lvls \<and>
           (\<forall>j < length lvls. if j < c then decodedNonEmpty (ls' ! j) else ls' ! j = lvls ! j)"
proof -
  from assms have "\<exists>k f tl es. rawBasisLoop k f 13 0 (min (length lvls) tl) lvls = (Inr ls', es)"
    by (fastforce simp: rawBasisPath_def Let_def
        split: option.splits sum.splits if_splits prod.splits)
  then obtain k f n es where n: "n \<le> length lvls"
    and run: "rawBasisLoop k f 13 0 n lvls = (Inr ls', es)"
    by (metis min.cobounded1)
  from n have "0 + n \<le> length lvls"
    by simp
  from rawBasisLoop_truncates [OF this, of k f 13] rawBasisLoop_Inr_no_throw [OF run] run
  have "length ls' = length lvls" and
    "\<forall>j < length lvls. ls' ! j =
              (if 0 \<le> j \<and> j < 0 + decodedCount k f 13 0 n
               then transcodedLevel k f 13 j (lvls ! j) else lvls ! j)"
    by auto
  from prefix_shape [OF refl n this] show ?thesis
    by blast
qed

lemma readLevels_untouched:
  "readLevels buf h off i n = Inr ls \<Longrightarrow> l \<in> set ls \<Longrightarrow> untouched l"
proof (induction n arbitrary: off i ls)
  case 0
  then show ?case by simp
next
  case (Suc n)
  then show ?case
    by (auto simp: bindE_eq_Inr untouched_def)
qed

text \<open>
  What holds of C1: whenever \<open>parseKTX2\<close> returns on a Basis-family path, the levels are
  a prefix of decoded levels with non-empty payloads followed by levels without any
  decode outcome; and under BasisLZ no failure of a level is fatal.
\<close>

lemma basis_family_mip_chain:
  assumes "parseKTX2 en buf = (Inr p, evs)"
    and "supercompressionScheme (header p) = SUPERCOMPRESSION_BASIS_LZ \<or>
         supercompressionScheme (header p) = SUPERCOMPRESSION_NONE \<and> vkFormat (header p) = 0"
  shows "\<exists>c \<le> length (levels p).
           \<forall>j < length (levels p).
             if j < c then decodedNonEmpty (levels p ! j) else untouched (levels p ! j)"
proof -
  from assms(1) obtain p0 ls' where p0: "parseContainer buf = Inr p0"
    and res: "resolveSupercompression en buf (header p0) (dfd p0) (levels p0) = (Inr ls', evs)"
    and p: "p = p0\<lparr> levels := ls' \<rparr>"
    by (blast dest: parseKTX2_Inr)
  have fresh: "untouched (levels p0 ! j)" if "j < length (levels p0)" for j
    using readLevels_untouched [OF parseContainer_levels [OF p0]] that by simp
  have "basisLZPath en buf (dfd p0) (levels p0) = (Inr ls', evs) \<or>
        rawBasisPath en buf (levels p0) = (Inr ls', evs)"
    using res assms(2) p
    by (auto simp: resolveSupercompression_def SUPERCOMPRESSION_ZSTD_def
        SUPERCOMPRESSION_NONE_def SUPERCOMPRESSION_BASIS_LZ_def split: if_splits)
  then obtain c where c: "c \<le> length (levels p0)" "length ls' = length (levels p0)"
    "\<forall>j < length (levels p0). if j < c then decodedNonEmpty (ls' ! j) else ls' ! j = levels p0 ! j"
    using basisLZPath_prefix rawBasisPath_prefix by blast
  have lp: "levels p = ls'"
    using p by simp
  have "if j < c then decodedNonEmpty (ls' ! j) else untouched (ls' ! j)"
    if "j < length ls'" for j
    using c that fresh [of j] by (cases "j < c") auto
  moreover have "c \<le> length ls'"
    using c(1,2) by simp
  ultimately show ?thesis
    unfolding lp by blast
qed

end
